theory Spec2Isabelle
  imports Complex_Main
begin

section \<open>JavaScript values\<close>

text \<open>
  The storage layer of the reader handles values of TypeScript type \<open>any\<close>: whatever
  \<open>JSON.parse\<close> produced from the text in \<open>localStorage\<close>, or whatever a caller
  passes to a save operation. They are modelled by value: a number is a finite
  rational, \<open>NaN\<close> or an infinity; an array is the list of its elements (a hole reads
  as \<open>undefined\<close>); an object is the list of its own properties in insertion order.
  Objects are compared as these lists, which is finer than property-wise equality.

  By value means that every load yields a copy of its own and that the data a timeout
  has captured stays as it was when the timeout was set. That is what the source does
  whenever the store holds a slice, since \<open>JSON.parse\<close> builds new objects. When
  nothing usable is stored, the source hands out the module-level default object
  itself, and an assignment to the loaded slice then also changes that default; this
  sharing is outside the model.
\<close>

datatype jsnum = Fin rat | NaN | PosInf | NegInf

datatype js =
    JUndefined
  | JNull
  | JBool bool
  | JNum jsnum
  | JStr string
  | JArr "js list"
  | JObj "(string \<times> js) list"

text \<open>
  An exception is one of the platform's error objects or any other thrown value.
\<close>

datatype exn =
    TypeError
  | SyntaxError
  | DOMException nat string
  | Error string
  | Thrown js

text \<open>Truthiness, as \<open>!x\<close> and \<open>a || b\<close> test it.\<close>

fun truthy :: "js \<Rightarrow> bool" where
  "truthy JUndefined = False"
| "truthy JNull = False"
| "truthy (JBool b) = b"
| "truthy (JNum n) = (n \<noteq> Fin 0 \<and> n \<noteq> NaN)"
| "truthy (JStr s) = (s \<noteq> [])"
| "truthy (JArr xs) = True"
| "truthy (JObj ps) = True"

fun typeof :: "js \<Rightarrow> string" where
  "typeof JUndefined = ''undefined''"
| "typeof JNull = ''object''"
| "typeof (JBool b) = ''boolean''"
| "typeof (JNum n) = ''number''"
| "typeof (JStr s) = ''string''"
| "typeof (JArr xs) = ''object''"
| "typeof (JObj ps) = ''object''"

fun isArray :: "js \<Rightarrow> bool" where
  "isArray (JArr xs) = True"
| "isArray v = False"

text \<open>\<open>x >= 0\<close> on a number.\<close>

fun num_ge0 :: "jsnum \<Rightarrow> bool" where
  "num_ge0 (Fin r) = (0 \<le> r)"
| "num_ge0 PosInf = True"
| "num_ge0 NaN = False"
| "num_ge0 NegInf = False"

text \<open>
  \<open>v.k\<close> for a property name \<open>k\<close> that is neither an array index nor \<open>length\<close>:
  reading it from \<open>null\<close> or \<open>undefined\<close> throws, from any other value that is not
  an object with that property it gives \<open>undefined\<close>.
\<close>

fun read_prop :: "js \<Rightarrow> string \<Rightarrow> js" where
  "read_prop (JObj ps) k = (case map_of ps k of Some v \<Rightarrow> v | None \<Rightarrow> JUndefined)"
| "read_prop v k = JUndefined"

definition get_prop :: "js \<Rightarrow> string \<Rightarrow> exn + js" where
  "get_prop v k = (if v = JUndefined \<or> v = JNull then Inl TypeError else Inr (read_prop v k))"

text \<open>\<open>o.k = v\<close> on the property list of an object: an existing property keeps its place.\<close>

fun put :: "(string \<times> js) list \<Rightarrow> string \<Rightarrow> js \<Rightarrow> (string \<times> js) list" where
  "put [] k v = [(k, v)]"
| "put (p # ps) k v = (if fst p = k then (k, v) # ps else p # put ps k v)"

fun set_prop :: "js \<Rightarrow> string \<Rightarrow> js \<Rightarrow> js" where
  "set_prop (JObj ps) k v = JObj (put ps k v)"
| "set_prop w k v = w"

text \<open>The decimal text of a non-negative integer, as \<open>String(n)\<close> gives it below \<open>1e21\<close>.\<close>

fun string_of_nat :: "nat \<Rightarrow> string" where
  "string_of_nat n =
     (if n < 10 then [''0123456789'' ! n]
      else string_of_nat (n div 10) @ [''0123456789'' ! (n mod 10)])"

declare string_of_nat.simps [simp del]

text \<open>The own enumerable properties that an object spread \<open>{...v}\<close> copies.\<close>

fun own_props :: "js \<Rightarrow> (string \<times> js) list" where
  "own_props (JObj ps) = ps"
| "own_props (JArr xs) = zip (map string_of_nat [0..<length xs]) xs"
| "own_props (JStr s) = zip (map string_of_nat [0..<length s]) (map (\<lambda>c. JStr [c]) s)"
| "own_props v = []"

definition spread :: "(string \<times> js) list \<Rightarrow> (string \<times> js) list \<Rightarrow> (string \<times> js) list" where
  "spread base over = fold (\<lambda>p acc. put acc (fst p) (snd p)) over base"

section \<open>JSON text\<close>

text \<open>
  \<open>JSON.stringify\<close> and \<open>JSON.parse\<close> belong to the platform. A text is represented
  by what parsing it gives: either the value it denotes, or nothing (any other string,
  the empty one included). \<open>to_json\<close> is the loss of \<open>JSON.stringify\<close>: a property
  whose value is \<open>undefined\<close> is left out, \<open>undefined\<close> in an array and every
  non-finite number become \<open>null\<close>.
\<close>

datatype jtext = JSONText js | Garbage string

fun undef_to_null :: "js \<Rightarrow> js" where
  "undef_to_null JUndefined = JNull"
| "undef_to_null v = v"

fun to_json :: "js \<Rightarrow> js" where
  "to_json JUndefined = JUndefined"
| "to_json JNull = JNull"
| "to_json (JBool b) = JBool b"
| "to_json (JNum (Fin r)) = JNum (Fin r)"
| "to_json (JNum n) = JNull"
| "to_json (JStr s) = JStr s"
| "to_json (JArr xs) = JArr (map (\<lambda>x. undef_to_null (to_json x)) xs)"
| "to_json (JObj ps) =
     JObj (filter (\<lambda>p. snd p \<noteq> JUndefined) (map (\<lambda>p. (fst p, to_json (snd p))) ps))"

text \<open>
  \<open>JSON.stringify\<close> returns \<open>undefined\<close> for \<open>undefined\<close>; it throws only on cyclic
  structures and BigInt values, which this value type does not have.
\<close>

definition JSON_stringify :: "js \<Rightarrow> exn + jtext option" where
  "JSON_stringify v = (if v = JUndefined then Inr None else Inr (Some (JSONText (to_json v))))"

fun JSON_parse :: "jtext \<Rightarrow> exn + js" where
  "JSON_parse (JSONText v) = Inr v"
| "JSON_parse (Garbage s) = Inl SyntaxError"

text \<open>\<open>!item\<close> on a string: only the empty string is falsy.\<close>

fun text_empty :: "jtext \<Rightarrow> bool" where
  "text_empty (Garbage s) = (s = [])"
| "text_empty (JSONText v) = False"

text \<open>\<open>json.substring(0, 100) + '...'\<close>, needed only for a text that failed to parse.\<close>

fun text_preview :: "jtext \<Rightarrow> string" where
  "text_preview (Garbage s) = take 100 s @ ''...''"
| "text_preview (JSONText v) = ''...''"

section \<open>The program state\<close>

datatype ErrorCode =
    STORAGE_NOT_AVAILABLE
  | QUOTA_EXCEEDED
  | DATA_CORRUPTION
  | VALIDATION_FAILED
  | SERIALIZATION_ERROR
  | DESERIALIZATION_ERROR
  | MIGRATION_FAILED
  | NETWORK_ERROR
  | UNKNOWN_ERROR

fun code_text :: "ErrorCode \<Rightarrow> string" where
  "code_text STORAGE_NOT_AVAILABLE = ''STORAGE_NOT_AVAILABLE''"
| "code_text QUOTA_EXCEEDED = ''QUOTA_EXCEEDED''"
| "code_text DATA_CORRUPTION = ''DATA_CORRUPTION''"
| "code_text VALIDATION_FAILED = ''VALIDATION_FAILED''"
| "code_text SERIALIZATION_ERROR = ''SERIALIZATION_ERROR''"
| "code_text DESERIALIZATION_ERROR = ''DESERIALIZATION_ERROR''"
| "code_text MIGRATION_FAILED = ''MIGRATION_FAILED''"
| "code_text NETWORK_ERROR = ''NETWORK_ERROR''"
| "code_text UNKNOWN_ERROR = ''UNKNOWN_ERROR''"

record ErrorContext =
  ctx_operation :: string
  ctx_data :: js
  ctx_timestamp :: string
  ctx_userAgent :: string
  ctx_url :: string

record StorageError =
  err_code :: ErrorCode
  err_message :: string
  err_context :: ErrorContext
  err_recoverable :: bool

text \<open>A pending timeout of \<open>debouncedSave\<close>: its handle, the time it is due, and the
  key and data its callback has captured.\<close>

record timer =
  tid :: nat
  due :: nat
  tkey :: string
  tdata :: js

text \<open>
  The state the storage code runs in. \<open>localStorage\<close> is the browser's store;
  \<open>quotaAccepts\<close> says which \<open>setItem\<close> calls the browser accepts (the others raise
  QuotaExceededError) and \<open>setItemCalls\<close> records every \<open>setItem\<close> call with its time.
  \<open>errorLog\<close> and \<open>debounceTimers\<close> are the static fields of StorageErrorHandler
  and StorageService; \<open>timers\<close> are the platform's pending timeouts. \<open>clock\<close> is
  the time in milliseconds and \<open>toISOString\<close> its rendering by \<open>Date\<close>.
  \<open>toNumber\<close> is the platform's conversion to a number of a string, an array or an
  object, which a comparison such as \<open>v > 5\<close> applies to an operand of these kinds and
  which can throw. The module was loaded at \<open>moduleLoadTime\<close>, when \<open>Math.random\<close>
  gave \<open>moduleLoadRandom\<close>. No error listener is registered.
\<close>

record sys =
  localStorage :: "string \<rightharpoonup> jtext"
  quotaAccepts :: "(string \<rightharpoonup> jtext) \<Rightarrow> string \<Rightarrow> jtext \<Rightarrow> bool"
  setItemCalls :: "(nat \<times> string \<times> jtext) list"
  errorLog :: "StorageError list"
  clock :: nat
  toISOString :: "nat \<Rightarrow> string"
  toNumber :: "js \<Rightarrow> exn + jsnum"
  navigator_userAgent :: string
  location_href :: string
  moduleLoadTime :: nat
  moduleLoadRandom :: string
  debounceTimers :: "string \<rightharpoonup> nat"
  timers :: "timer list"
  lastTimerId :: nat

definition nowISO :: "sys \<Rightarrow> string" where
  "nowISO st = toISOString st (clock st)"

definition getItem :: "sys \<Rightarrow> string \<Rightarrow> jtext option" where
  "getItem st key = localStorage st key"

definition setItem :: "sys \<Rightarrow> string \<Rightarrow> jtext \<Rightarrow> exn option \<times> sys" where
  "setItem st key t =
     (let st1 = st\<lparr> setItemCalls := setItemCalls st @ [(clock st, key, t)] \<rparr> in
      if quotaAccepts st (localStorage st) key t
      then (None, st1\<lparr> localStorage := (localStorage st)(key \<mapsto> t) \<rparr>)
      else (Some (DOMException 22 ''QuotaExceededError''), st1))"

definition removeItem :: "sys \<Rightarrow> string \<Rightarrow> sys" where
  "removeItem st key = st\<lparr> localStorage := (localStorage st)(key := None) \<rparr>"

section \<open>Error reporting (src/utils/ErrorHandler.ts)\<close>

definition isRecoverable :: "ErrorCode \<Rightarrow> bool" where
  "isRecoverable c =
     (c \<in> set [QUOTA_EXCEEDED, NETWORK_ERROR, SERIALIZATION_ERROR, DESERIALIZATION_ERROR])"

definition maxLogSize :: nat where
  "maxLogSize = 50"

text \<open>The entry \<open>{code, message, context}\<close> that storeCriticalError pushes.\<close>

definition critical_entry :: "StorageError \<Rightarrow> js" where
  "critical_entry e =
     JObj [(''code'', JStr (code_text (err_code e))),
           (''message'', JStr (err_message e)),
           (''context'',
              JObj [(''operation'', JStr (ctx_operation (err_context e))),
                    (''data'', ctx_data (err_context e)),
                    (''timestamp'', JStr (ctx_timestamp (err_context e))),
                    (''userAgent'', JStr (ctx_userAgent (err_context e))),
                    (''url'', JStr (ctx_url (err_context e)))])]"

text \<open>
  storeCriticalError: everything runs inside a \<open>try\<close>, so a stored text that does not
  parse, a parsed value without \<open>push\<close> (anything but an array) and a refused
  \<open>setItem\<close> all leave the store as it was.
\<close>

definition storeCriticalError :: "sys \<Rightarrow> StorageError \<Rightarrow> sys" where
  "storeCriticalError st e =
     (let item = (case getItem st ''novel-critical-errors'' of
                    None \<Rightarrow> JSONText (JArr [])
                  | Some t \<Rightarrow> if text_empty t then JSONText (JArr []) else t) in
      case JSON_parse item of
        Inl x \<Rightarrow> st
      | Inr (JArr criticalErrors) \<Rightarrow>
          (let pushed = criticalErrors @ [critical_entry e];
               kept = (if length pushed > 10 then tl pushed else pushed) in
           case JSON_stringify (JArr kept) of
             Inr (Some t) \<Rightarrow> snd (setItem st ''novel-critical-errors'' t)
           | Inr None \<Rightarrow> st
           | Inl x \<Rightarrow> st)
      | Inr v \<Rightarrow> st)"

definition logError :: "sys \<Rightarrow> StorageError \<Rightarrow> sys" where
  "logError st e =
     (let pushed = errorLog st @ [e];
          kept = (if length pushed > maxLogSize then tl pushed else pushed);
          st1 = st\<lparr> errorLog := kept \<rparr> in
      if \<not> err_recoverable e then storeCriticalError st1 e else st1)"

definition createError :: "sys \<Rightarrow> ErrorCode \<Rightarrow> string \<Rightarrow> string \<Rightarrow> js \<Rightarrow> StorageError \<times> sys" where
  "createError st c msg opname d =
     (let context = \<lparr> ctx_operation = opname, ctx_data = d, ctx_timestamp = nowISO st,
                       ctx_userAgent = navigator_userAgent st, ctx_url = location_href st \<rparr>;
          e = \<lparr> err_code = c, err_message = msg, err_context = context,
                err_recoverable = isRecoverable c \<rparr> in
      (e, logError st e))"

definition validateStorageData :: "sys \<Rightarrow> string \<Rightarrow> js \<Rightarrow> (js \<Rightarrow> exn + bool) \<Rightarrow> bool \<times> sys" where
  "validateStorageData st key d validator =
     (case validator d of
        Inr isValid \<Rightarrow>
          (if \<not> isValid
           then (isValid, snd (createError st VALIDATION_FAILED
                                 (''Data validation failed for key: '' @ key) ''validateStorageData'' d))
           else (isValid, st))
      | Inl x \<Rightarrow>
          (False, snd (createError st VALIDATION_FAILED
                         (''Validation error for key: '' @ key) ''validateStorageData'' d)))"

definition safeJSONParse :: "sys \<Rightarrow> jtext \<Rightarrow> js \<Rightarrow> js \<times> sys" where
  "safeJSONParse st json fallback =
     (case JSON_parse json of
        Inr v \<Rightarrow> (v, st)
      | Inl x \<Rightarrow>
          (fallback, snd (createError st DESERIALIZATION_ERROR ''Failed to parse JSON data''
                            ''safeJSONParse'' (JObj [(''json'', JStr (text_preview json))]))))"

definition safeJSONStringify :: "sys \<Rightarrow> js \<Rightarrow> jtext option \<times> sys" where
  "safeJSONStringify st d =
     (case JSON_stringify d of
        Inr r \<Rightarrow> (r, st)
      | Inl x \<Rightarrow>
          (None, snd (createError st SERIALIZATION_ERROR ''Failed to stringify data''
                        ''safeJSONStringify'' (JObj [(''dataType'', JStr (typeof d))]))))"

section \<open>Validation (src/services/StorageService.ts, ValidationService)\<close>

definition validatePreferences :: "js \<Rightarrow> bool" where
  "validatePreferences d =
     (if \<not> truthy d \<or> typeof d \<noteq> ''object'' then False
      else
        read_prop d ''theme'' \<in> set (map JStr [''system'', ''light'', ''dark''])
        \<and> read_prop d ''font'' \<in> set (map JStr [''system'', ''myanmarsanpya'', ''myanmartagu'',
                                                  ''masterpiecestadium'', ''pyidaungsu''])
        \<and> read_prop d ''fontSize'' \<in> set (map JStr [''small'', ''medium'', ''large''])
        \<and> read_prop d ''lineHeight'' \<in> set (map JStr [''compact'', ''normal'', ''relaxed''])
        \<and> read_prop d ''textAlign'' \<in> set (map JStr [''left'', ''center'', ''justify''])
        \<and> read_prop d ''pageWidth'' \<in> set (map JStr [''narrow'', ''normal'', ''wide'']))"

text \<open>\<open>typeof x === 'number' && x >= 0\<close>.\<close>

fun number_ge0 :: "js \<Rightarrow> bool" where
  "number_ge0 (JNum n) = num_ge0 n"
| "number_ge0 v = False"

definition validateReadingState :: "js \<Rightarrow> bool" where
  "validateReadingState d =
     (if \<not> truthy d \<or> typeof d \<noteq> ''object'' then False
      else
        number_ge0 (read_prop d ''currentChapterIndex'')
        \<and> number_ge0 (read_prop d ''scrollPosition'')
        \<and> typeof (read_prop d ''lastReadTime'') = ''string''
        \<and> typeof (read_prop d ''readingProgress'') = ''object''
        \<and> typeof (read_prop d ''totalReadingTime'') = ''number''
        \<and> typeof (read_prop d ''sessionStartTime'') = ''string'')"

definition validateUIState :: "js \<Rightarrow> bool" where
  "validateUIState d =
     (if \<not> truthy d \<or> typeof d \<noteq> ''object'' then False
      else
        typeof (read_prop d ''showTOC'') = ''boolean''
        \<and> typeof (read_prop d ''showSettings'') = ''boolean''
        \<and> read_prop d ''lastActivePanel'' \<in> set [JStr ''toc'', JStr ''settings'', JNull]
        \<and> typeof (read_prop d ''contentAreaWidth'') = ''number''
        \<and> read_prop d ''navigationPreference'' \<in> set (map JStr [''buttons'', ''keyboard'', ''swipe''])
        \<and> typeof (read_prop d ''panelAnimationDuration'') = ''number'')"

definition validateSessionData :: "js \<Rightarrow> bool" where
  "validateSessionData d =
     (if \<not> truthy d \<or> typeof d \<noteq> ''object'' then False
      else
        typeof (read_prop d ''sessionId'') = ''string''
        \<and> typeof (read_prop d ''lastVisitTime'') = ''string''
        \<and> typeof (read_prop d ''totalReadingTime'') = ''number''
        \<and> isArray (read_prop d ''chaptersRead'')
        \<and> isArray (read_prop d ''bookmarkPositions'')
        \<and> typeof (read_prop d ''visitCount'') = ''number''
        \<and> typeof (read_prop d ''averageReadingSpeed'') = ''number'')"

definition sanitizeData :: "js \<Rightarrow> js \<Rightarrow> js" where
  "sanitizeData d defaultValue =
     (if truthy d \<and> typeof d = ''object''
      then JObj (spread (own_props defaultValue) (own_props d))
      else defaultValue)"

section \<open>Keys and default values\<close>

definition PREFERENCES :: string where
  "PREFERENCES = ''novel-preferences''"

definition READING_STATE :: string where
  "READING_STATE = ''novel-reading-state''"

definition UI_STATE :: string where
  "UI_STATE = ''novel-ui-state''"

definition SESSION_DATA :: string where
  "SESSION_DATA = ''novel-session-data''"

definition VERSION :: string where
  "VERSION = ''1.0.0''"

definition generateSessionId :: "nat \<Rightarrow> string \<Rightarrow> string" where
  "generateSessionId now rnd = ''session_'' @ string_of_nat now @ ''_'' @ rnd"

definition generateBookmarkId :: "nat \<Rightarrow> string \<Rightarrow> string" where
  "generateBookmarkId now rnd = ''bookmark_'' @ string_of_nat now @ ''_'' @ rnd"

definition defaultPreferences :: js where
  "defaultPreferences =
     JObj [(''theme'', JStr ''system''), (''font'', JStr ''system''),
           (''fontSize'', JStr ''medium''), (''lineHeight'', JStr ''normal''),
           (''textAlign'', JStr ''left''), (''pageWidth'', JStr ''normal'')]"

definition defaultReadingState :: "sys \<Rightarrow> js" where
  "defaultReadingState st =
     JObj [(''currentChapterIndex'', JNum (Fin 0)), (''scrollPosition'', JNum (Fin 0)),
           (''lastReadTime'', JStr (toISOString st (moduleLoadTime st))),
           (''readingProgress'', JObj []),
           (''totalReadingTime'', JNum (Fin 0)),
           (''sessionStartTime'', JStr (toISOString st (moduleLoadTime st)))]"


definition defaultSessionData :: "sys \<Rightarrow> js" where
  "defaultSessionData st =
     JObj [(''sessionId'', JStr (generateSessionId (moduleLoadTime st) (moduleLoadRandom st))),
           (''lastVisitTime'', JStr (toISOString st (moduleLoadTime st))),
           (''totalReadingTime'', JNum (Fin 0)),
           (''chaptersRead'', JArr []), (''bookmarkPositions'', JArr []),
           (''visitCount'', JNum (Fin 1)), (''averageReadingSpeed'', JNum (Fin 0))]"

section \<open>Core storage operations (StorageService)\<close>

definition saveToStorage :: "sys \<Rightarrow> string \<Rightarrow> js \<Rightarrow> bool \<times> sys" where
  "saveToStorage st key d =
     (case safeJSONStringify st (JObj [(''data'', d), (''version'', JStr VERSION),
                                       (''timestamp'', JStr (nowISO st))]) of
        (None, st1) \<Rightarrow> (False, st1)
      | (Some serializedData, st1) \<Rightarrow>
          (case setItem st1 key serializedData of
             (Some x, st2) \<Rightarrow> (False, st2)
           | (None, st2) \<Rightarrow> (True, st2)))"

definition loadFromStorage :: "sys \<Rightarrow> string \<Rightarrow> js \<Rightarrow> js \<times> sys" where
  "loadFromStorage st key defaultValue =
     (case getItem st key of
        None \<Rightarrow> (defaultValue, st)
      | Some item \<Rightarrow>
          if text_empty item then (defaultValue, st)
          else
            (case safeJSONParse st item (JObj [(''data'', defaultValue)]) of
               (parsed, st1) \<Rightarrow>
                 (case get_prop parsed ''data'' of
                    Inl x \<Rightarrow> (defaultValue, st1)
                  | Inr v \<Rightarrow> (if truthy v then v else defaultValue, st1))))"

section \<open>The four slices (StorageService)\<close>

text \<open>
  Each slice has a validate-then-store save and a load that validates what it read and
  merges an invalid value over the default. A load whose key holds a slice returns
  what \<open>JSON.parse\<close> built, an object of its own. When nothing usable is stored,
  loadReadingState and loadSessionData of the source return the module-level default
  object itself (after sanitizeData, a copy that shares the default's nested
  \<open>readingProgress\<close> object and bookmark array), so that an assignment to the result
  or a \<open>push\<close> onto its bookmark array also changes the default of later loads. The
  definitions below return the default as the module initialised it: they describe
  the source for as long as no caller has changed a default object, and without this
  proviso whenever the key holds a valid slice.
\<close>

definition saveUserPreferences :: "sys \<Rightarrow> js \<Rightarrow> bool \<times> sys" where
  "saveUserPreferences st preferences =
     (case validateStorageData st PREFERENCES preferences (\<lambda>d. Inr (validatePreferences d)) of
        (ok, st1) \<Rightarrow> if \<not> ok then (False, st1) else saveToStorage st1 PREFERENCES preferences)"

definition loadUserPreferences :: "sys \<Rightarrow> js \<times> sys" where
  "loadUserPreferences st =
     (case loadFromStorage st PREFERENCES defaultPreferences of
        (stored, st1) \<Rightarrow>
          (if validatePreferences stored then stored else sanitizeData stored defaultPreferences, st1))"

definition saveReadingState :: "sys \<Rightarrow> js \<Rightarrow> bool \<times> sys" where
  "saveReadingState st state =
     (case validateStorageData st READING_STATE state (\<lambda>d. Inr (validateReadingState d)) of
        (ok, st1) \<Rightarrow> if \<not> ok then (False, st1) else saveToStorage st1 READING_STATE state)"

definition loadReadingState :: "sys \<Rightarrow> js \<times> sys" where
  "loadReadingState st =
     (case loadFromStorage st READING_STATE (defaultReadingState st) of
        (stored, st1) \<Rightarrow>
          (if validateReadingState stored then stored
           else sanitizeData stored (defaultReadingState st), st1))"

definition saveUIState :: "sys \<Rightarrow> js \<Rightarrow> bool \<times> sys" where
  "saveUIState st state =
     (case validateStorageData st UI_STATE state (\<lambda>d. Inr (validateUIState d)) of
        (ok, st1) \<Rightarrow> if \<not> ok then (False, st1) else saveToStorage st1 UI_STATE state)"


definition saveSessionData :: "sys \<Rightarrow> js \<Rightarrow> bool \<times> sys" where
  "saveSessionData st d =
     (case validateStorageData st SESSION_DATA d (\<lambda>d. Inr (validateSessionData d)) of
        (ok, st1) \<Rightarrow> if \<not> ok then (False, st1) else saveToStorage st1 SESSION_DATA d)"

definition loadSessionData :: "sys \<Rightarrow> js \<times> sys" where
  "loadSessionData st =
     (case loadFromStorage st SESSION_DATA (defaultSessionData st) of
        (stored, st1) \<Rightarrow>
          (if validateSessionData stored then stored
           else sanitizeData stored (defaultSessionData st), st1))"

section \<open>Debounced saves and the timer queue\<close>

definition clearTimeout :: "sys \<Rightarrow> nat \<Rightarrow> sys" where
  "clearTimeout st h = st\<lparr> timers := filter (\<lambda>t. tid t \<noteq> h) (timers st) \<rparr>"

text \<open>\<open>setTimeout\<close> for the callback of debouncedSave, which captures \<open>key\<close> and
  \<open>data\<close>. Handles are positive and never reused.\<close>

definition setTimeout :: "sys \<Rightarrow> string \<Rightarrow> js \<Rightarrow> nat \<Rightarrow> nat \<times> sys" where
  "setTimeout st key d delay =
     (let h = Suc (lastTimerId st) in
      (h, st\<lparr> timers := timers st @ [\<lparr> tid = h, due = clock st + delay, tkey = key, tdata = d \<rparr>],
              lastTimerId := h \<rparr>))"

definition debouncedSave :: "sys \<Rightarrow> string \<Rightarrow> js \<Rightarrow> nat \<Rightarrow> sys" where
  "debouncedSave st key d delay =
     (let st1 = (case debounceTimers st key of
                   Some existingTimer \<Rightarrow>
                     if existingTimer \<noteq> 0 then clearTimeout st existingTimer else st
                 | None \<Rightarrow> st) in
      case setTimeout st1 key d delay of
        (h, st2) \<Rightarrow> st2\<lparr> debounceTimers := (debounceTimers st2)(key \<mapsto> h) \<rparr>)"

text \<open>The body of the timeout: save, then forget the handle.\<close>

definition debounce_callback :: "sys \<Rightarrow> string \<Rightarrow> js \<Rightarrow> sys" where
  "debounce_callback st key d =
     (let st1 = snd (saveToStorage st key d) in
      st1\<lparr> debounceTimers := (debounceTimers st1)(key := None) \<rparr>)"

text \<open>
  The event loop. Of the pending timeouts that are due by time \<open>T\<close> the one due first
  runs first, and of two due together the one set first. A timeout runs at its due
  time (or at once when that has passed); after the last one the clock stands at \<open>T\<close>.
\<close>

fun earliest :: "timer list \<Rightarrow> timer option" where
  "earliest [] = None"
| "earliest (t # ts) =
     (case earliest ts of
        None \<Rightarrow> Some t
      | Some u \<Rightarrow> if due u < due t then Some u else Some t)"

definition next_due :: "sys \<Rightarrow> nat \<Rightarrow> timer option" where
  "next_due st T = earliest (filter (\<lambda>t. due t \<le> T) (timers st))"

definition fire :: "sys \<Rightarrow> timer \<Rightarrow> sys" where
  "fire st t =
     debounce_callback
       (st\<lparr> timers := filter (\<lambda>u. tid u \<noteq> tid t) (timers st), clock := max (clock st) (due t) \<rparr>)
       (tkey t) (tdata t)"

lemma earliest_mem: "earliest ts = Some t \<Longrightarrow> t \<in> set ts"
  by (induction ts arbitrary: t) (auto split: option.splits if_splits)

lemma timers_setItem [simp]: "timers (snd (setItem st k t)) = timers st"
  by (simp add: setItem_def Let_def)

lemma timers_storeCriticalError [simp]: "timers (storeCriticalError st e) = timers st"
  by (simp add: storeCriticalError_def Let_def split: sum.splits js.splits option.splits)

lemma timers_logError [simp]: "timers (logError st e) = timers st"
  by (simp add: logError_def Let_def)

lemma timers_createError [simp]: "timers (snd (createError st c msg opname d)) = timers st"
  by (simp add: createError_def Let_def)

lemma timers_saveToStorage [simp]: "timers (snd (saveToStorage st key d)) = timers st"
  by (simp add: saveToStorage_def safeJSONStringify_def JSON_stringify_def split_beta
      split: option.splits)

lemma timers_fire: "timers (fire st t) = filter (\<lambda>u. tid u \<noteq> tid t) (timers st)"
  by (simp add: fire_def debounce_callback_def Let_def)

lemma fire_fewer_timers:
  assumes "next_due st T = Some t"
  shows "length (timers (fire st t)) < length (timers st)"
proof -
  from assms have "t \<in> set (timers st)"
    using earliest_mem by (fastforce simp: next_due_def)
  then have "length (filter (\<lambda>u. tid u \<noteq> tid t) (timers st)) < length (timers st)"
    by (intro length_filter_less [of t]) auto
  then show ?thesis
    by (simp add: timers_fire)
qed

function run_until :: "nat \<Rightarrow> sys \<Rightarrow> sys" where
  "run_until T st =
     (case next_due st T of
        None \<Rightarrow> st\<lparr> clock := max (clock st) T \<rparr>
      | Some t \<Rightarrow> run_until T (fire st t))"
  by pat_completeness auto
termination
  by (relation "measure (\<lambda>(T, st). length (timers st))") (auto simp: fire_fewer_timers)

declare run_until.simps [simp del]

text \<open>Let \<open>d\<close> milliseconds pass.\<close>

definition sleep :: "sys \<Rightarrow> nat \<Rightarrow> sys" where
  "sleep st d = run_until (clock st + d) st"

section \<open>Scroll tracking and chapter navigation\<close>

text \<open>
  \<open>v[i]\<close> and, in strict mode, \<open>v[i] = w\<close> for a non-negative integer \<open>i\<close>. The
  property name of \<open>i\<close> in an object is its decimal text.
\<close>

fun read_index :: "js \<Rightarrow> nat \<Rightarrow> exn + js" where
  "read_index JUndefined i = Inl TypeError"
| "read_index JNull i = Inl TypeError"
| "read_index (JObj ps) i = Inr (read_prop (JObj ps) (string_of_nat i))"
| "read_index (JArr xs) i = Inr (if i < length xs then xs ! i else JUndefined)"
| "read_index (JStr s) i = Inr (if i < length s then JStr [s ! i] else JUndefined)"
| "read_index v i = Inr JUndefined"

fun write_index :: "js \<Rightarrow> nat \<Rightarrow> js \<Rightarrow> exn + js" where
  "write_index (JObj ps) i w = Inr (JObj (put ps (string_of_nat i) w))"
| "write_index (JArr xs) i w =
     Inr (JArr (if i < length xs then xs[i := w]
                else xs @ replicate (i - length xs) JUndefined @ [w]))"
| "write_index v i w = Inl TypeError"

definition updateScrollPosition :: "sys \<Rightarrow> nat \<Rightarrow> jsnum \<Rightarrow> exn option \<times> sys" where
  "updateScrollPosition st chapterIndex scrollPosition =
     (case loadReadingState st of
        (readingState, st1) \<Rightarrow>
          (let rs1 = set_prop readingState ''scrollPosition'' (JNum scrollPosition);
               rs2 = set_prop rs1 ''lastReadTime'' (JStr (nowISO st1)) in
           case read_index (read_prop rs2 ''readingProgress'') chapterIndex of
             Inl x \<Rightarrow> (Some x, st1)
           | Inr cur \<Rightarrow>
               (let currentProgress =
                      (if truthy cur then cur
                       else JObj [(''scrollPosition'', JNum (Fin 0)),
                                  (''lastVisited'', JStr (nowISO st1)),
                                  (''timeSpent'', JNum (Fin 0))]);
                    entry = JObj (spread (own_props currentProgress)
                                    [(''scrollPosition'', JNum scrollPosition),
                                     (''lastVisited'', JStr (nowISO st1))]) in
                case write_index (read_prop rs2 ''readingProgress'') chapterIndex entry of
                  Inl x \<Rightarrow> (Some x, st1)
                | Inr progress \<Rightarrow>
                    (None, debouncedSave st1 READING_STATE
                             (set_prop rs2 ''readingProgress'' progress) 1000))))"

text \<open>
  The immediate save that goToPreviousChapter, goToNextChapter and selectChapter of
  the App component share: load, set the chapter index and the time, save.
  (selectChapter also closes the panels, which is the business of the UI state.)
  One call takes no time: every \<open>new Date()\<close> within it reads the same clock.
\<close>

definition saveChapterNavigation :: "sys \<Rightarrow> nat \<Rightarrow> bool \<times> sys" where
  "saveChapterNavigation st newIndex =
     (case loadReadingState st of
        (readingState, st1) \<Rightarrow>
          (let rs1 = set_prop readingState ''currentChapterIndex'' (JNum (Fin (of_nat newIndex)));
               rs2 = set_prop rs1 ''lastReadTime'' (JStr (nowISO st1)) in
           saveReadingState st1 rs2))"

text \<open>The App component's current chapter index together with the storage state.\<close>

definition goToPreviousChapter :: "nat \<Rightarrow> sys \<Rightarrow> nat \<times> sys" where
  "goToPreviousChapter currentChapterIndex st =
     (if currentChapterIndex > 0
      then (currentChapterIndex - 1, snd (saveChapterNavigation st (currentChapterIndex - 1)))
      else (currentChapterIndex, st))"

definition goToNextChapter :: "nat \<Rightarrow> nat \<Rightarrow> sys \<Rightarrow> nat \<times> sys" where
  "goToNextChapter chapters_length currentChapterIndex st =
     (if currentChapterIndex + 1 < chapters_length
      then (currentChapterIndex + 1, snd (saveChapterNavigation st (currentChapterIndex + 1)))
      else (currentChapterIndex, st))"

definition selectChapter :: "nat \<Rightarrow> sys \<Rightarrow> nat \<times> sys" where
  "selectChapter index st = (index, snd (saveChapterNavigation st index))"

section \<open>Bookmarks\<close>

text \<open>
  \<open>rnd\<close> is the text that \<open>Math.random().toString(36).substr(2, 9)\<close> gives, \<open>note\<close>
  is \<open>undefined\<close> when the caller passes none. \<open>push\<close> and \<open>filter\<close> exist only on an
  array, and the filter's test \<open>b.id\<close> throws on an element that is \<open>null\<close>.
\<close>

definition addBookmark :: "sys \<Rightarrow> string \<Rightarrow> nat \<Rightarrow> jsnum \<Rightarrow> js \<Rightarrow> (exn + js) \<times> sys" where
  "addBookmark st rnd chapterIndex scrollPosition note =
     (let bookmark = JObj [(''id'', JStr (generateBookmarkId (clock st) rnd)),
                           (''chapterIndex'', JNum (Fin (of_nat chapterIndex))),
                           (''scrollPosition'', JNum scrollPosition),
                           (''timestamp'', JStr (nowISO st)),
                           (''note'', note)] in
      case loadSessionData st of
        (sessionData, st1) \<Rightarrow>
          (case read_prop sessionData ''bookmarkPositions'' of
             JArr bs \<Rightarrow>
               (Inr bookmark,
                snd (saveSessionData st1
                       (set_prop sessionData ''bookmarkPositions'' (JArr (bs @ [bookmark])))))
           | v \<Rightarrow> (Inl TypeError, st1)))"

definition removeBookmark :: "sys \<Rightarrow> string \<Rightarrow> (exn + bool) \<times> sys" where
  "removeBookmark st bookmarkId =
     (case loadSessionData st of
        (sessionData, st1) \<Rightarrow>
          (case read_prop sessionData ''bookmarkPositions'' of
             JArr bs \<Rightarrow>
               if list_ex (\<lambda>b. b = JUndefined \<or> b = JNull) bs then (Inl TypeError, st1)
               else
                 (let initialLength = length bs;
                      kept = filter (\<lambda>b. read_prop b ''id'' \<noteq> JStr bookmarkId) bs in
                  if length kept < initialLength
                  then (Inr True,
                        snd (saveSessionData st1
                               (set_prop sessionData ''bookmarkPositions'' (JArr kept))))
                  else (Inr False, st1))
           | v \<Rightarrow> (Inl TypeError, st1)))"


section \<open>Retry with backoff (StorageErrorHandler.handleStorageOperation)\<close>

text \<open>\<open>v > 5\<close>: numbers compare as such (nothing is above \<open>NaN\<close>), \<open>undefined\<close> converts
  to \<open>NaN\<close>, \<open>null\<close> and \<open>false\<close> to 0 and \<open>true\<close> to 1; any other operand is
  converted by the platform.\<close>

fun num_gt5 :: "jsnum \<Rightarrow> bool" where
  "num_gt5 (Fin r) = (5 < r)"
| "num_gt5 PosInf = True"
| "num_gt5 NaN = False"
| "num_gt5 NegInf = False"

definition above5 :: "sys \<Rightarrow> js \<Rightarrow> exn + bool" where
  "above5 st v =
     (case v of
        JNum n \<Rightarrow> Inr (num_gt5 n)
      | JUndefined \<Rightarrow> Inr False
      | JNull \<Rightarrow> Inr False
      | JBool b \<Rightarrow> Inr False
      | w \<Rightarrow> (case toNumber st w of Inl x \<Rightarrow> Inl x | Inr n \<Rightarrow> Inr (num_gt5 n)))"

text \<open>
  freeUpStorage, all inside a \<open>try\<close>: the list of critical errors is cut to its last
  five entries, then every key that starts with \<open>temp-\<close> or \<open>cache-\<close> is removed.
  An exception on the way (unparsable text, \<open>null\<close>, a refused \<open>setItem\<close>) ends it.
  The list is written by storeCriticalError as an array. Of the other values the text
  may parse to, a string has a \<open>length\<close> and a \<open>slice\<close> of its own; a number or a
  boolean has no \<open>length\<close>; an object has the \<open>length\<close> property it was stored with,
  if any, and no \<open>slice\<close> method, so that the call throws when that \<open>length\<close> is
  above five.
\<close>

definition trim_critical :: "sys \<Rightarrow> js \<Rightarrow> exn option \<times> sys" where
  "trim_critical st criticalErrors =
     (case criticalErrors of
        JUndefined \<Rightarrow> (Some TypeError, st)
      | JNull \<Rightarrow> (Some TypeError, st)
      | JArr xs \<Rightarrow>
          if length xs > 5
          then setItem st ''novel-critical-errors'' (JSONText (to_json (JArr (drop (length xs - 5) xs))))
          else (None, st)
      | JStr s \<Rightarrow>
          if length s > 5
          then setItem st ''novel-critical-errors'' (JSONText (JStr (drop (length s - 5) s)))
          else (None, st)
      | JObj ps \<Rightarrow>
          (case above5 st (read_prop (JObj ps) ''length'') of
             Inl x \<Rightarrow> (Some x, st)
           | Inr True \<Rightarrow> (Some TypeError, st)
           | Inr False \<Rightarrow> (None, st))
      | v \<Rightarrow> (None, st))"

definition freeUpStorage :: "sys \<Rightarrow> sys" where
  "freeUpStorage st =
     (let item = (case getItem st ''novel-critical-errors'' of
                    None \<Rightarrow> JSONText (JArr [])
                  | Some t \<Rightarrow> if text_empty t then JSONText (JArr []) else t) in
      case JSON_parse item of
        Inl x \<Rightarrow> st
      | Inr criticalErrors \<Rightarrow>
          (case trim_critical st criticalErrors of
             (Some x, st1) \<Rightarrow> st1
           | (None, st1) \<Rightarrow>
               st1\<lparr> localStorage :=
                      (\<lambda>key. if take 5 key = ''temp-'' \<or> take 6 key = ''cache-'' then None
                             else localStorage st1 key) \<rparr>))"








section \<open>The UI state hook (src/hooks/useUIState.ts)\<close>

datatype panel = Toc | Settings

datatype navpref = Buttons | Keyboard | Swipe

record UIState =
  showTOC :: bool
  showSettings :: bool
  lastActivePanel :: "panel option"
  contentAreaWidth :: jsnum
  navigationPreference :: navpref
  panelAnimationDuration :: jsnum

text \<open>
  Each panel operation hands \<open>setUIState\<close> a function from the previous state to
  the next one; these are those functions. The \<open>onPanelToggle\<close> callback is notified
  on the side and does not take part in the state.
\<close>

definition toggleTOC :: "UIState \<Rightarrow> UIState" where
  "toggleTOC prev =
     (let newShowTOC = \<not> showTOC prev in
      prev\<lparr> showTOC := newShowTOC,
            showSettings := (if newShowTOC then False else showSettings prev),
            lastActivePanel := (if newShowTOC then Some Toc else lastActivePanel prev) \<rparr>)"

definition toggleSettings :: "UIState \<Rightarrow> UIState" where
  "toggleSettings prev =
     (let newShowSettings = \<not> showSettings prev in
      prev\<lparr> showSettings := newShowSettings,
            showTOC := (if newShowSettings then False else showTOC prev),
            lastActivePanel := (if newShowSettings then Some Settings else lastActivePanel prev) \<rparr>)"

definition closeAllPanels :: "UIState \<Rightarrow> UIState" where
  "closeAllPanels prev =
     prev\<lparr> showTOC := False, showSettings := False, lastActivePanel := None \<rparr>"

definition openPanel :: "panel \<Rightarrow> UIState \<Rightarrow> UIState" where
  "openPanel p prev =
     prev\<lparr> showTOC := (p = Toc), showSettings := (p = Settings), lastActivePanel := Some p \<rparr>"

datatype panel_op = ToggleTOC | ToggleSettings | OpenPanel panel | CloseAllPanels

fun panel_step :: "panel_op \<Rightarrow> UIState \<Rightarrow> UIState" where
  "panel_step ToggleTOC = toggleTOC"
| "panel_step ToggleSettings = toggleSettings"
| "panel_step (OpenPanel p) = openPanel p"
| "panel_step CloseAllPanels = closeAllPanels"

definition both_open :: "UIState \<Rightarrow> bool" where
  "both_open s = (showTOC s \<and> showSettings s)"

definition sampleUI :: UIState where
  "sampleUI = \<lparr> showTOC = True, showSettings = False, lastActivePanel = Some Toc,
                contentAreaWidth = Fin 800, navigationPreference = Buttons,
                panelAnimationDuration = Fin 300 \<rparr>"

section \<open>Notions for the statements, and sample states\<close>

definition sample_sys :: sys where
  "sample_sys = \<lparr> localStorage = Map.empty, quotaAccepts = (\<lambda>m k t. True), setItemCalls = [],
      errorLog = [], clock = 0, toISOString = string_of_nat,
      toNumber = (\<lambda>v. Inr NaN), navigator_userAgent = ''agent'',
      location_href = ''http://localhost/'', moduleLoadTime = 0, moduleLoadRandom = ''abc'',
      debounceTimers = Map.empty, timers = [], lastTimerId = 0 \<rparr>"

definition neon_sys :: sys where
  "neon_sys = sample_sys\<lparr> localStorage :=
      [PREFERENCES \<mapsto> JSONText (JObj [(''data'', JObj [(''theme'', JStr ''neon'')]),
                                        (''version'', JStr ''1.0.0''),
                                        (''timestamp'', JStr ''0'')])] \<rparr>"

definition garbage_sys :: sys where
  "garbage_sys = sample_sys\<lparr> localStorage := [READING_STATE \<mapsto> Garbage ''{oops''] \<rparr>"

definition store_accepts :: "sys \<Rightarrow> bool" where
  "store_accepts st = (\<forall>m k t. quotaAccepts st m k t)"

definition only_log :: "sys \<Rightarrow> sys \<Rightarrow> bool" where
  "only_log st st' = (st' = st\<lparr> errorLog := errorLog st' \<rparr>)"

definition only_store :: "sys \<Rightarrow> sys \<Rightarrow> bool" where
  "only_store st st' =
     (st' = st\<lparr> localStorage := localStorage st', setItemCalls := setItemCalls st',
                 errorLog := errorLog st' \<rparr>)"

definition calls_for :: "string \<Rightarrow> sys \<Rightarrow> (nat \<times> string \<times> jtext) list" where
  "calls_for key st = filter (\<lambda>c. fst (snd c) = key) (setItemCalls st)"

definition slice_keys :: "string list" where
  "slice_keys = [PREFERENCES, READING_STATE, UI_STATE, SESSION_DATA]"

definition untouched :: "sys \<Rightarrow> sys \<Rightarrow> bool" where
  "untouched st st' =
     (\<forall>k \<in> set slice_keys. localStorage st' k = localStorage st k \<and> calls_for k st' = calls_for k st)"

definition envelope :: "sys \<Rightarrow> js \<Rightarrow> js" where
  "envelope st d = JObj [(''data'', d), (''version'', JStr VERSION), (''timestamp'', JStr (nowISO st))]"









definition cancel_pending :: "sys \<Rightarrow> string \<Rightarrow> timer list" where
  "cancel_pending st key =
     (case debounceTimers st key of
        Some h \<Rightarrow> if h \<noteq> 0 then filter (\<lambda>t. tid t \<noteq> h) (timers st) else timers st
      | None \<Rightarrow> timers st)"

definition rs6 :: js where
  "rs6 = JObj [(''currentChapterIndex'', JNum (Fin 6)), (''scrollPosition'', JNum (Fin 0)),
               (''lastReadTime'', JStr ''earlier''),
               (''readingProgress'', JObj []),
               (''totalReadingTime'', JNum (Fin 0)),
               (''sessionStartTime'', JStr ''earlier'')]"

definition stored6_sys :: sys where
  "stored6_sys = sample_sys\<lparr> localStorage :=
      [READING_STATE \<mapsto> JSONText (JObj [(''data'', rs6), (''version'', JStr ''1.0.0''),
                                          (''timestamp'', JStr ''earlier'')])] \<rparr>"

definition scroll_owned :: "string set" where
  "scroll_owned = {''scrollPosition'', ''lastReadTime'', ''readingProgress''}"

definition stored_data :: "sys \<Rightarrow> string \<Rightarrow> js" where
  "stored_data st key =
     (case localStorage st key of
        Some (JSONText r) \<Rightarrow> read_prop r ''data''
      | Some (Garbage s) \<Rightarrow> JUndefined
      | None \<Rightarrow> JUndefined)"

definition jump_after_scroll :: sys where
  "jump_after_scroll = snd (updateScrollPosition stored6_sys 6 (Fin 250))"

definition jump_after_select :: sys where
  "jump_after_select = snd (selectChapter 2 (sleep jump_after_scroll 400))"

definition jump_final :: sys where
  "jump_final = sleep jump_after_select 600"

definition quiet_final :: sys where
  "quiet_final = sleep jump_after_scroll 1000"

definition race_after_scroll :: sys where
  "race_after_scroll = snd (updateScrollPosition stored6_sys 6 (Fin 100))"

definition race_after_navigation :: sys where
  "race_after_navigation = snd (goToPreviousChapter 6 (sleep race_after_scroll 500))"

definition race_final :: sys where
  "race_final = sleep race_after_navigation 500"

definition json_store :: "sys \<Rightarrow> bool" where
  "json_store st = (\<forall>k v. localStorage st k = Some (JSONText v) \<longrightarrow> to_json v = v)"






definition store_only :: "sys \<Rightarrow> sys \<Rightarrow> bool" where
  "store_only st st' =
     (st' = st\<lparr> localStorage := localStorage st', setItemCalls := setItemCalls st' \<rparr>)"

definition same_reporting :: "sys \<Rightarrow> sys \<Rightarrow> bool" where
  "same_reporting st st' =
     (errorLog st' = errorLog st \<and> toISOString st' = toISOString st
      \<and> navigator_userAgent st' = navigator_userAgent st \<and> location_href st' = location_href st)"







definition pending_for :: "string \<Rightarrow> sys \<Rightarrow> timer list" where
  "pending_for key st = filter (\<lambda>t. tkey t = key) (timers st)"

definition timers_ok :: "sys \<Rightarrow> bool" where
  "timers_ok st =
     (distinct (map tid (timers st))
      \<and> (\<forall>k h. debounceTimers st k = Some h \<longrightarrow> h \<le> lastTimerId st)
      \<and> (\<forall>t \<in> set (timers st).
            0 < tid t \<and> tid t \<le> lastTimerId st
            \<and> (\<forall>k. debounceTimers st k = Some (tid t) \<longleftrightarrow> k = tkey t)))"

fun debounce_burst :: "sys \<Rightarrow> string \<Rightarrow> nat \<Rightarrow> (nat \<times> js) list \<Rightarrow> sys" where
  "debounce_burst st key delay [] = st"
| "debounce_burst st key delay (c # calls) =
     debounce_burst (debouncedSave (sleep st (fst c)) key (snd c) delay) key delay calls"

definition written_text :: "(nat \<Rightarrow> string) \<Rightarrow> nat \<Rightarrow> js \<Rightarrow> jtext" where
  "written_text render t d =
     JSONText (to_json (JObj [(''data'', d), (''version'', JStr VERSION),
                              (''timestamp'', JStr (render t))]))"

definition burst_end :: "sys \<Rightarrow> string \<Rightarrow> nat \<Rightarrow> js \<Rightarrow> (nat \<times> js) list \<Rightarrow> sys" where
  "burst_end st key delay d0 calls = debounce_burst (debouncedSave st key d0 delay) key delay calls"

section \<open>Properties of the storage layer\<close>

lemma only_store_refl [simp]: "only_store st st"
  by (simp add: only_store_def)


lemma only_log_refl [simp]: "only_log st st"
  by (simp add: only_log_def)

lemma only_log_store: "only_log a b \<Longrightarrow> only_store a b"
  by (cases a, cases b) (simp add: only_store_def only_log_def)





lemma only_log_createError_recoverable:
  "isRecoverable c \<Longrightarrow> only_log st (snd (createError st c msg opname d))"
  by (simp add: createError_def logError_def Let_def only_log_def)


lemma only_log_safeJSONParse: "only_log st (snd (safeJSONParse st json fb))"
  by (simp add: safeJSONParse_def only_log_createError_recoverable isRecoverable_def
      split: sum.splits)

lemma safeJSONStringify_eq:
  "safeJSONStringify st d = ((if d = JUndefined then None else Some (JSONText (to_json d))), st)"
  by (simp add: safeJSONStringify_def JSON_stringify_def)


lemma only_log_loadFromStorage: "only_log st (snd (loadFromStorage st key dflt))"
  using only_log_safeJSONParse
  by (simp add: loadFromStorage_def split_beta split: option.splits sum.splits)

lemma fst_loadFromStorage:
  "fst (loadFromStorage st key dflt) =
     (case localStorage st key of
        None \<Rightarrow> dflt
      | Some (Garbage s) \<Rightarrow> dflt
      | Some (JSONText parsed) \<Rightarrow>
          if truthy (read_prop parsed ''data'') then read_prop parsed ''data'' else dflt)"
proof (cases "localStorage st key")
  case None
  then show ?thesis by (simp add: loadFromStorage_def getItem_def)
next
  case (Some item)
  show ?thesis
  proof (cases item)
    case (Garbage s)
    with Some show ?thesis
      by (simp add: loadFromStorage_def getItem_def safeJSONParse_def get_prop_def)
  next
    case (JSONText parsed)
    with Some show ?thesis
      by (cases parsed) (simp_all add: loadFromStorage_def getItem_def safeJSONParse_def get_prop_def)
  qed
qed

text \<open>
  C8. For every key and default value, loadFromStorage returns the default when no
  text is stored under the key or the stored text does not parse. Otherwise it returns
  the \<open>data\<close> property of the parsed record, or the default when that property is
  empty in the sense of \<open>parsed.data || defaultValue\<close>: missing, or one of the falsy
  values (\<open>null\<close>, \<open>false\<close>, \<open>0\<close>, \<open>NaN\<close>, the empty string). A parsed record
  that cannot have properties (\<open>null\<close>) has no \<open>data\<close> either.
\<close>

theorem load_fallback:
  "fst (loadFromStorage st key dflt) =
     (case localStorage st key of
        None \<Rightarrow> dflt
      | Some (Garbage s) \<Rightarrow> dflt
      | Some (JSONText parsed) \<Rightarrow>
          if truthy (read_prop parsed ''data'') then read_prop parsed ''data'' else dflt)"
  by (rule fst_loadFromStorage)

theorem load_fallback_witness:
  "fst (loadFromStorage garbage_sys READING_STATE JNull) = JNull
   \<and> fst (loadFromStorage neon_sys PREFERENCES JNull) = JObj [(''theme'', JStr ''neon'')]
   \<and> fst (loadFromStorage neon_sys UI_STATE (JStr ''d'')) = JStr ''d''"
  using load_fallback [of garbage_sys READING_STATE JNull]
    load_fallback [of neon_sys PREFERENCES JNull]
    load_fallback [of neon_sys UI_STATE "JStr ''d''"]
  by (simp add: garbage_sys_def neon_sys_def sample_sys_def PREFERENCES_def READING_STATE_def
      UI_STATE_def)

lemma localStorage_setItem:
  "localStorage (snd (setItem st k t)) =
     (if quotaAccepts st (localStorage st) k t then (localStorage st)(k \<mapsto> t) else localStorage st)"
  by (simp add: setItem_def Let_def)

lemma setItemCalls_setItem:
  "setItemCalls (snd (setItem st k t)) = setItemCalls st @ [(clock st, k, t)]"
  by (simp add: setItem_def Let_def)


lemma storeCriticalError_other:
  assumes "k \<noteq> ''novel-critical-errors''"
  shows "localStorage (storeCriticalError st e) k = localStorage st k"
    and "calls_for k (storeCriticalError st e) = calls_for k st"
  using assms
  by (simp_all add: storeCriticalError_def Let_def localStorage_setItem setItemCalls_setItem
      calls_for_def split: sum.splits js.splits option.splits)

lemma createError_other:
  assumes "k \<noteq> ''novel-critical-errors''"
  shows "localStorage (snd (createError st c msg opname d)) k = localStorage st k"
    and "calls_for k (snd (createError st c msg opname d)) = calls_for k st"
  using assms storeCriticalError_other [of k]
  by (simp_all add: createError_def logError_def Let_def calls_for_def)

lemma validateStorageData_other:
  assumes "k \<noteq> ''novel-critical-errors''"
  shows "localStorage (snd (validateStorageData st key d v)) k = localStorage st k"
    and "calls_for k (snd (validateStorageData st key d v)) = calls_for k st"
  using assms createError_other [of k]
  by (simp_all add: validateStorageData_def split: sum.splits)

lemma fst_validateStorageData [simp]:
  "fst (validateStorageData st key d (\<lambda>d. Inr (p d))) = p d"
  by (simp add: validateStorageData_def)

lemma slice_keys_not_critical: "k \<in> set slice_keys \<Longrightarrow> k \<noteq> ''novel-critical-errors''"
  by (auto simp: slice_keys_def PREFERENCES_def READING_STATE_def UI_STATE_def SESSION_DATA_def)

lemma untouched_validateStorageData: "untouched st (snd (validateStorageData st key d v))"
  by (simp add: untouched_def validateStorageData_other slice_keys_not_critical)

text \<open>
  C4. For every candidate that fails a slice's validator, that slice's save operation
  returns false, and under each of the four slice keys the store holds exactly what it
  held before and no \<open>setItem\<close> call was made for it. (The rejected candidate is
  reported, which may write the diagnostics key \<open>novel-critical-errors\<close>.)
\<close>

theorem invalid_save_rejected:
  "(\<not> validatePreferences c \<longrightarrow>
      \<not> fst (saveUserPreferences st c) \<and> untouched st (snd (saveUserPreferences st c)))
   \<and> (\<not> validateReadingState c \<longrightarrow>
      \<not> fst (saveReadingState st c) \<and> untouched st (snd (saveReadingState st c)))
   \<and> (\<not> validateUIState c \<longrightarrow>
      \<not> fst (saveUIState st c) \<and> untouched st (snd (saveUIState st c)))
   \<and> (\<not> validateSessionData c \<longrightarrow>
      \<not> fst (saveSessionData st c) \<and> untouched st (snd (saveSessionData st c)))"
proof -
  have rejected: "\<not> p c \<Longrightarrow>
      (case validateStorageData st key c (\<lambda>d. Inr (p d)) of
         (ok, st1) \<Rightarrow> if \<not> ok then (False, st1) else saveToStorage st1 key c)
      = (False, snd (validateStorageData st key c (\<lambda>d. Inr (p d))))" for p key
    by (simp add: split_beta)
  show ?thesis
    by (simp add: saveUserPreferences_def saveReadingState_def saveUIState_def
        saveSessionData_def rejected untouched_validateStorageData)
qed

theorem invalid_save_rejected_witness:
  "\<not> validatePreferences (JObj [(''theme'', JStr ''neon'')])
   \<and> \<not> fst (saveUserPreferences neon_sys (JObj [(''theme'', JStr ''neon'')]))
   \<and> localStorage (snd (saveUserPreferences neon_sys (JObj [(''theme'', JStr ''neon'')]))) PREFERENCES
       = localStorage neon_sys PREFERENCES"
proof -
  have h: "\<not> validatePreferences (JObj [(''theme'', JStr ''neon'')])"
    by (simp add: validatePreferences_def)
  from invalid_save_rejected [of "JObj [(''theme'', JStr ''neon'')]" neon_sys] h
  show ?thesis
    by (simp add: untouched_def slice_keys_def)
qed

lemma map_of_put: "map_of (put ps k v) k' = (if k' = k then Some v else map_of ps k')"
  by (induction ps) auto

lemma spread_Nil [simp]: "spread base [] = base"
  by (simp add: spread_def)

lemma spread_Cons [simp]: "spread base (p # over) = spread (put base (fst p) (snd p)) over"
  by (simp add: spread_def)

lemma map_of_spread:
  "distinct (map fst over) \<Longrightarrow>
   map_of (spread base over) k = (case map_of over k of Some v \<Rightarrow> Some v | None \<Rightarrow> map_of base k)"
proof (induction over arbitrary: base)
  case Nil
  then show ?case by simp
next
  case (Cons p over)
  from Cons.prems have d: "distinct (map fst over)" and fresh: "fst p \<notin> fst ` set over"
    by auto
  from fresh have none: "map_of over (fst p) = None"
    by (simp add: map_of_eq_None_iff)
  have step: "map_of (spread base (p # over)) k =
                (case map_of over k of Some v \<Rightarrow> Some v
                 | None \<Rightarrow> map_of (put base (fst p) (snd p)) k)"
    using Cons.IH [OF d, of "put base (fst p) (snd p)"] by simp
  show ?case
  proof (cases "k = fst p")
    case True
    with none step show ?thesis
      by (cases p) (simp add: map_of_put)
  next
    case False
    with step show ?thesis
      by (cases p) (auto simp: map_of_put split: option.splits)
  qed
qed

lemma read_prop_sanitize:
  assumes "distinct (map fst ps)"
  shows "read_prop (sanitizeData (JObj ps) (JObj dps)) k =
           (case map_of ps k of Some v \<Rightarrow> v | None \<Rightarrow> read_prop (JObj dps) k)"
  using assms by (simp add: sanitizeData_def map_of_spread split: option.splits)

lemma fst_loadUserPreferences:
  "fst (loadUserPreferences st) =
     (let stored = fst (loadFromStorage st PREFERENCES defaultPreferences) in
      if validatePreferences stored then stored else sanitizeData stored defaultPreferences)"
  by (simp add: loadUserPreferences_def split_beta Let_def)

text \<open>
  C6. sanitizeData merges the candidate's own properties over the default, a property
  the candidate has winning over the default's; the merged object is not validated
  again. So when the stored preferences carry a theme outside
  \<open>system\<close>, \<open>light\<close>, \<open>dark\<close>, the candidate fails validatePreferences and
  loadUserPreferences returns a slice with that same theme, which fails
  validatePreferences too.
\<close>

theorem sanitize_keeps_invalid_theme:
  assumes stored: "localStorage st PREFERENCES = Some (JSONText parsed)"
    and cand: "read_prop parsed ''data'' = JObj ps"
    and dist: "distinct (map fst ps)"
    and theme: "map_of ps ''theme'' = Some t"
    and bad: "t \<notin> set (map JStr [''system'', ''light'', ''dark''])"
  shows "\<not> validatePreferences (JObj ps)
         \<and> (\<forall>k. read_prop (fst (loadUserPreferences st)) k =
                  (case map_of ps k of Some v \<Rightarrow> v | None \<Rightarrow> read_prop defaultPreferences k))
         \<and> read_prop (fst (loadUserPreferences st)) ''theme'' = t
         \<and> \<not> validatePreferences (fst (loadUserPreferences st))"
proof -
  from theme bad have invalid: "\<not> validatePreferences (JObj ps)"
    by (simp add: validatePreferences_def)
  from stored cand have loaded: "fst (loadFromStorage st PREFERENCES defaultPreferences) = JObj ps"
    by (simp add: fst_loadFromStorage)
  with invalid have result:
    "fst (loadUserPreferences st) = sanitizeData (JObj ps) defaultPreferences"
    by (simp add: fst_loadUserPreferences)
  have merged: "read_prop (fst (loadUserPreferences st)) k =
                  (case map_of ps k of Some v \<Rightarrow> v | None \<Rightarrow> read_prop defaultPreferences k)" for k
    unfolding result defaultPreferences_def
    by (rule read_prop_sanitize [OF dist])
  from merged [of "''theme''"] theme
  have kept: "read_prop (fst (loadUserPreferences st)) ''theme'' = t"
    by simp
  have obj: "\<exists>qs. fst (loadUserPreferences st) = JObj qs"
    by (simp add: result sanitizeData_def)
  from kept bad obj have "\<not> validatePreferences (fst (loadUserPreferences st))"
    by (auto simp: validatePreferences_def)
  with invalid merged kept show ?thesis by blast
qed

theorem sanitize_keeps_invalid_theme_witness:
  "\<not> validatePreferences (JObj [(''theme'', JStr ''neon'')])
   \<and> read_prop (fst (loadUserPreferences neon_sys)) ''theme'' = JStr ''neon''
   \<and> read_prop (fst (loadUserPreferences neon_sys)) ''font'' = JStr ''system''
   \<and> \<not> validatePreferences (fst (loadUserPreferences neon_sys))"
proof -
  have a: "localStorage neon_sys PREFERENCES =
             Some (JSONText (JObj [(''data'', JObj [(''theme'', JStr ''neon'')]),
                                   (''version'', JStr ''1.0.0''), (''timestamp'', JStr ''0'')]))"
    by (simp add: neon_sys_def sample_sys_def)
  have b: "read_prop (JObj [(''data'', JObj [(''theme'', JStr ''neon'')]),
                            (''version'', JStr ''1.0.0''), (''timestamp'', JStr ''0'')]) ''data''
             = JObj [(''theme'', JStr ''neon'')]"
    by simp
  have c: "distinct (map fst [(''theme'', JStr ''neon'')])" by simp
  have d: "map_of [(''theme'', JStr ''neon'')] ''theme'' = Some (JStr ''neon'')" by simp
  have e: "JStr ''neon'' \<notin> set (map JStr [''system'', ''light'', ''dark''])" by simp
  from sanitize_keeps_invalid_theme [OF a b c d e]
  show ?thesis by (simp add: defaultPreferences_def)
qed

lemma saveToStorage_eq:
  "saveToStorage st key d =
     (fst (setItem st key (JSONText (to_json (envelope st d)))) = None,
      snd (setItem st key (JSONText (to_json (envelope st d)))))"
  by (simp add: saveToStorage_def safeJSONStringify_eq envelope_def split_beta split: option.splits)






lemma fst_loadReadingState:
  "fst (loadReadingState st) =
     (let stored = fst (loadFromStorage st READING_STATE (defaultReadingState st)) in
      if validateReadingState stored then stored else sanitizeData stored (defaultReadingState st))"
  by (simp add: loadReadingState_def split_beta Let_def)

















lemma debouncedSave_eq:
  "debouncedSave st key d delay =
     st\<lparr> timers := cancel_pending st key
                       @ [\<lparr> tid = Suc (lastTimerId st), due = clock st + delay, tkey = key, tdata = d \<rparr>],
         lastTimerId := Suc (lastTimerId st),
         debounceTimers := (debounceTimers st)(key \<mapsto> Suc (lastTimerId st)) \<rparr>"
  by (simp add: debouncedSave_def setTimeout_def clearTimeout_def cancel_pending_def Let_def
      split: option.splits)

lemma digits_distinct: "distinct ''0123456789''"
  by simp

lemma digit_inj:
  assumes "a < 10" "b < 10" "''0123456789'' ! a = ''0123456789'' ! b"
  shows "a = b"
proof -
  have "a < length ''0123456789''" "b < length ''0123456789''"
    using assms by simp_all
  with digits_distinct assms(3) show ?thesis
    using nth_eq_iff_index_eq by blast
qed

lemma string_of_nat_nonempty: "string_of_nat n \<noteq> []"
  by (subst string_of_nat.simps) simp

lemma string_of_nat_small: "n < 10 \<Longrightarrow> string_of_nat n = [''0123456789'' ! n]"
  by (subst string_of_nat.simps) simp

lemma string_of_nat_large:
  "\<not> n < 10 \<Longrightarrow> string_of_nat n = string_of_nat (n div 10) @ [''0123456789'' ! (n mod 10)]"
  by (subst string_of_nat.simps) simp

lemma string_of_nat_inj: "string_of_nat m = string_of_nat n \<Longrightarrow> m = n"
proof (induction m arbitrary: n rule: string_of_nat.induct)
  case (1 m)
  show ?case
  proof (cases "m < 10")
    case True
    show ?thesis
    proof (cases "n < 10")
      case True
      with \<open>m < 10\<close> "1.prems" show ?thesis
        by (simp add: string_of_nat_small digit_inj)
    next
      case False
      with \<open>m < 10\<close> "1.prems" string_of_nat_nonempty [of "n div 10"] show ?thesis
        by (simp add: string_of_nat_small string_of_nat_large)
    qed
  next
    case False
    show ?thesis
    proof (cases "n < 10")
      case True
      with \<open>\<not> m < 10\<close> "1.prems" string_of_nat_nonempty [of "m div 10"] show ?thesis
        by (simp add: string_of_nat_small string_of_nat_large)
    next
      case nl: False
      from False nl "1.prems"
      have eq: "string_of_nat (m div 10) = string_of_nat (n div 10)"
        and d: "''0123456789'' ! (m mod 10) = ''0123456789'' ! (n mod 10)"
        by (simp_all add: string_of_nat_large)
      from "1.IH" [OF False eq] have q: "m div 10 = n div 10" .
      from d have r: "m mod 10 = n mod 10"
        by (intro digit_inj) simp_all
      from q r show ?thesis
        by (metis div_mult_mod_eq)
    qed
  qed
qed

lemma only_log_fields:
  assumes "only_log st st'"
  shows "localStorage st' = localStorage st" "setItemCalls st' = setItemCalls st"
    "clock st' = clock st" "timers st' = timers st" "debounceTimers st' = debounceTimers st"
    "lastTimerId st' = lastTimerId st" "toISOString st' = toISOString st"
    "quotaAccepts st' = quotaAccepts st" "moduleLoadTime st' = moduleLoadTime st"
    "moduleLoadRandom st' = moduleLoadRandom st"
  using assms by (cases st, cases st', simp add: only_log_def)+


lemma only_log_loadReadingState: "only_log st (snd (loadReadingState st))"
  by (simp add: loadReadingState_def split_beta only_log_loadFromStorage)

lemma only_log_loadSessionData: "only_log st (snd (loadSessionData st))"
  by (simp add: loadSessionData_def split_beta only_log_loadFromStorage)

lemma nowISO_only_log: "only_log st st' \<Longrightarrow> nowISO st' = nowISO st"
  by (simp add: nowISO_def only_log_fields)

lemma valid_reading_obj: "validateReadingState x \<Longrightarrow> \<exists>ps. x = JObj ps"
  by (cases x) (simp_all add: validateReadingState_def)


lemma sanitize_obj: "\<exists>ps. sanitizeData x (JObj dps) = JObj ps"
  by (simp add: sanitizeData_def)

lemma loadReadingState_obj: "\<exists>ps. fst (loadReadingState st) = JObj ps"
  using valid_reading_obj sanitize_obj
  by (simp add: fst_loadReadingState Let_def defaultReadingState_def)


lemma read_set_prop:
  "read_prop (set_prop (JObj ps) k v) k' = (if k' = k then v else read_prop (JObj ps) k')"
  by (simp add: map_of_put)

lemma set_prop_obj: "\<exists>qs. set_prop (JObj ps) k v = JObj qs"
  by simp

lemma write_index_other:
  assumes "write_index v i w = Inr v'" and "j \<noteq> i"
  shows "read_index v' j = read_index v j"
proof (cases v)
  case (JObj ps)
  from assms(2) have "string_of_nat j \<noteq> string_of_nat i"
    using string_of_nat_inj by blast
  with JObj assms(1) show ?thesis
    by (auto simp: map_of_put)
next
  case (JArr xs)
  show ?thesis
  proof (cases "i < length xs")
    case True
    with JArr assms show ?thesis by auto
  next
    case False
    with JArr assms(1)
    have v': "v' = JArr (xs @ replicate (i - length xs) JUndefined @ [w])"
      by auto
    from False assms(2) show ?thesis
      unfolding v' JArr by (auto simp: nth_append)
  qed
qed (use assms in simp_all)

lemma updateScrollPosition_done:
  assumes "updateScrollPosition st i p = (None, st')"
  obtains ps progress where
    "fst (loadReadingState st) = JObj ps"
    "write_index (read_prop (JObj ps) ''readingProgress'') i progress \<noteq> Inl TypeError"
    "\<exists>entry. write_index (read_prop (JObj ps) ''readingProgress'') i entry = Inr progress"
    "st' = debouncedSave (snd (loadReadingState st)) READING_STATE
             (set_prop (set_prop (set_prop (JObj ps) ''scrollPosition'' (JNum p))
                          ''lastReadTime'' (JStr (nowISO st))) ''readingProgress'' progress) 1000"
proof -
  obtain ps where obj: "fst (loadReadingState st) = JObj ps"
    using loadReadingState_obj by blast
  let ?st1 = "snd (loadReadingState st)"
  have now: "nowISO ?st1 = nowISO st"
    by (rule nowISO_only_log [OF only_log_loadReadingState])
  let ?rs2 = "set_prop (set_prop (JObj ps) ''scrollPosition'' (JNum p)) ''lastReadTime'' (JStr (nowISO st))"
  have rp: "read_prop ?rs2 ''readingProgress'' = read_prop (JObj ps) ''readingProgress''"
    by (simp add: map_of_put)
  from assms obj now rp obtain entry progress where
    w: "write_index (read_prop (JObj ps) ''readingProgress'') i entry = Inr progress"
    and s: "st' = debouncedSave ?st1 READING_STATE (set_prop ?rs2 ''readingProgress'' progress) 1000"
    unfolding updateScrollPosition_def
    by (cases "loadReadingState st")
       (auto simp add: Let_def simp del: set_prop.simps read_prop.simps split: sum.splits)
  have ne: "write_index (read_prop (JObj ps) ''readingProgress'') i progress \<noteq> Inl TypeError"
    using w by (cases "read_prop (JObj ps) ''readingProgress''") auto
  from obj ne w s that show thesis by blast
qed

text \<open>
  What a call of updateScrollPosition that completes leaves behind: nothing is written
  at once, and one timeout for the reading-state key is pending, due 1000 ms later. The
  state it has captured is the one loadReadingState gave at the call with the scroll
  offset, the last-read time and the progress entry of the chapter replaced.
\<close>

lemma scheduled_state_frame:
  assumes "updateScrollPosition st i p = (None, st')"
  shows "timers st' = cancel_pending st READING_STATE @ [last (timers st')]
         \<and> tkey (last (timers st')) = READING_STATE
         \<and> due (last (timers st')) = clock st + 1000
         \<and> read_prop (tdata (last (timers st'))) ''scrollPosition'' = JNum p
         \<and> read_prop (tdata (last (timers st'))) ''lastReadTime'' = JStr (nowISO st)
         \<and> (\<forall>k. k \<notin> scroll_owned \<longrightarrow>
               read_prop (tdata (last (timers st'))) k = read_prop (fst (loadReadingState st)) k)
         \<and> read_prop (tdata (last (timers st'))) ''currentChapterIndex''
             = read_prop (fst (loadReadingState st)) ''currentChapterIndex''
         \<and> (\<forall>j. j \<noteq> i \<longrightarrow>
               read_index (read_prop (tdata (last (timers st'))) ''readingProgress'') j
               = read_index (read_prop (fst (loadReadingState st)) ''readingProgress'') j)
         \<and> localStorage st' = localStorage st
         \<and> setItemCalls st' = setItemCalls st"
proof -
  from assms obtain ps progress where
    obj: "fst (loadReadingState st) = JObj ps"
    and w: "\<exists>entry. write_index (read_prop (JObj ps) ''readingProgress'') i entry = Inr progress"
    and s: "st' = debouncedSave (snd (loadReadingState st)) READING_STATE
             (set_prop (set_prop (set_prop (JObj ps) ''scrollPosition'' (JNum p))
                          ''lastReadTime'' (JStr (nowISO st))) ''readingProgress'' progress) 1000"
    by (rule updateScrollPosition_done)
  let ?st1 = "snd (loadReadingState st)"
  let ?d = "set_prop (set_prop (set_prop (JObj ps) ''scrollPosition'' (JNum p))
                          ''lastReadTime'' (JStr (nowISO st))) ''readingProgress'' progress"
  note f = only_log_fields [OF only_log_loadReadingState [of st]]
  have cp: "cancel_pending ?st1 READING_STATE = cancel_pending st READING_STATE"
    by (simp add: cancel_pending_def f split: option.splits)
  have tm: "timers st' = cancel_pending st READING_STATE
              @ [\<lparr> tid = Suc (lastTimerId st), due = clock st + 1000, tkey = READING_STATE, tdata = ?d \<rparr>]"
    unfolding s by (simp add: debouncedSave_eq cp f)
  then have lst: "last (timers st') =
              \<lparr> tid = Suc (lastTimerId st), due = clock st + 1000, tkey = READING_STATE, tdata = ?d \<rparr>"
    by simp
  have store: "localStorage st' = localStorage st" "setItemCalls st' = setItemCalls st"
    unfolding s by (simp_all add: debouncedSave_eq f)
  have sp: "read_prop ?d ''scrollPosition'' = JNum p"
    and lr: "read_prop ?d ''lastReadTime'' = JStr (nowISO st)"
    and cc: "read_prop ?d ''currentChapterIndex'' = read_prop (JObj ps) ''currentChapterIndex''"
    and pr: "read_prop ?d ''readingProgress'' = progress"
    by (simp_all add: map_of_put)
  have other: "read_prop ?d k = read_prop (JObj ps) k" if "k \<notin> scroll_owned" for k
    using that by (simp add: map_of_put scroll_owned_def)
  have idx: "read_index progress j = read_index (read_prop (JObj ps) ''readingProgress'') j"
    if "j \<noteq> i" for j
    using w write_index_other [OF _ that] by blast
  show ?thesis
    unfolding lst obj
    using tm lst store sp lr cc other idx pr
    by (simp del: set_prop.simps read_prop.simps)
qed

text \<open>
  C2. The stored reading state has chapter index 6 and last-read time \<open>earlier\<close>. At
  time 0 updateScrollPosition(6, 250) completes: it writes nothing and leaves one
  timeout pending for time 1000. At time 400 selectChapter(2) stores chapter index 2;
  the timeout stays pending. At time 1000 the write that updateScrollPosition
  scheduled changes the stored \<open>currentChapterIndex\<close> from 2 to 6, so scroll tracking
  does change a field it is said to leave alone. Also when nothing happens in
  between, the write changes the stored \<open>lastReadTime\<close> besides the scroll offset and
  the progress entry of chapter 6.
\<close>

theorem scroll_write_changes_chapter_index:
  "fst (updateScrollPosition stored6_sys 6 (Fin 250)) = None
   \<and> stored_data jump_after_scroll READING_STATE = stored_data stored6_sys READING_STATE
   \<and> setItemCalls jump_after_scroll = []
   \<and> map (\<lambda>t. (tkey t, due t)) (timers jump_after_scroll) = [(READING_STATE, 1000)]
   \<and> fst (selectChapter 2 (sleep jump_after_scroll 400)) = 2
   \<and> read_prop (stored_data jump_after_select READING_STATE) ''currentChapterIndex'' = JNum (Fin 2)
   \<and> map (\<lambda>t. (tkey t, due t)) (timers jump_after_select) = [(READING_STATE, 1000)]
   \<and> map fst (calls_for READING_STATE jump_final) = [400, 1000]
   \<and> timers jump_final = []
   \<and> read_prop (stored_data jump_final READING_STATE) ''currentChapterIndex'' = JNum (Fin 6)
   \<and> read_prop (stored_data jump_final READING_STATE) ''scrollPosition'' = JNum (Fin 250)
   \<and> read_prop (stored_data stored6_sys READING_STATE) ''lastReadTime'' = JStr ''earlier''
   \<and> map fst (calls_for READING_STATE quiet_final) = [1000]
   \<and> read_prop (stored_data quiet_final READING_STATE) ''lastReadTime'' = JStr ''0''
   \<and> read_prop (stored_data quiet_final READING_STATE) ''scrollPosition'' = JNum (Fin 250)
   \<and> read_prop (stored_data quiet_final READING_STATE) ''currentChapterIndex'' = JNum (Fin 6)"
  by code_simp

text \<open>
  C1. The reading state in the store has chapter index 6. At time 0
  updateScrollPosition(6, 100) loads it and schedules its debounced save for time
  1000. At time 500 goToPreviousChapter saves chapter index 5 at once. At time 1000
  the timeout writes the state it captured at time 0: the store then holds chapter
  index 6 again, with scroll offset 100. The timeout does not read the store when it
  fires, and it writes the whole slice.
\<close>

theorem debounced_write_reverts_navigation:
  "fst (updateScrollPosition stored6_sys 6 (Fin 100)) = None
   \<and> read_prop (fst (loadReadingState stored6_sys)) ''currentChapterIndex'' = JNum (Fin 6)
   \<and> fst (goToPreviousChapter 6 (sleep race_after_scroll 500)) = 5
   \<and> read_prop (fst (loadReadingState race_after_navigation)) ''currentChapterIndex'' = JNum (Fin 5)
   \<and> clock race_final = 1000
   \<and> map fst (calls_for READING_STATE race_final) = [500, 1000]
   \<and> read_prop (fst (loadReadingState race_final)) ''scrollPosition'' = JNum (Fin 100)
   \<and> read_prop (fst (loadReadingState race_final)) ''currentChapterIndex'' = JNum (Fin 6)"
  by code_simp

text \<open>
  In the other order the chapter index survives: a navigation save of chapter 5 at
  time 0, updateScrollPosition(6, 100) at time 500 with the index of the chapter left
  behind, and the timeout at time 1500 leave chapter index 5 in the store.
\<close>

lemma scroll_after_navigation_keeps_chapter:
  "read_prop (fst (loadReadingState
      (sleep (snd (updateScrollPosition (sleep (snd (goToPreviousChapter 6 stored6_sys)) 500)
                     6 (Fin 100))) 1000))) ''currentChapterIndex'' = JNum (Fin 5)
   \<and> read_prop (fst (loadReadingState
      (sleep (snd (updateScrollPosition (sleep (snd (goToPreviousChapter 6 stored6_sys)) 500)
                     6 (Fin 100))) 1000))) ''scrollPosition'' = JNum (Fin 100)"
  by code_simp






lemma set_put: "set (put ps k v) \<subseteq> insert (k, v) (set ps)"
  by (induction ps) auto

lemma put_put [simp]: "put (put ps k v) k w = put ps k w"
  by (induction ps) auto



lemma to_json_idem: "to_json (to_json x) = to_json x"
proof (induction x rule: to_json.induct)
  case (7 xs)
  have "undef_to_null (to_json (undef_to_null (to_json x))) = undef_to_null (to_json x)"
    if "x \<in> set xs" for x
    using 7 [OF that] by (cases "to_json x") auto
  then show ?case by simp
next
  case (8 ps)
  let ?f = "\<lambda>p. (fst p, to_json (snd p))"
  let ?P = "\<lambda>p::string \<times> js. snd p \<noteq> JUndefined"
  have m: "map ?f (filter ?P (map ?f ps)) = filter ?P (map ?f ps)"
    by (rule map_idI) (use 8 in auto)
  have "filter ?P (map ?f (filter ?P (map ?f ps))) = filter ?P (map ?f ps)"
    by (simp only: m filter_filter conj_absorb)
  then show ?case by simp
qed simp_all


lemma json_store_same: "localStorage st' = localStorage st \<Longrightarrow> json_store st' = json_store st"
  by (simp add: json_store_def)

lemma json_store_setItem:
  assumes "json_store st" and "to_json v = v"
  shows "json_store (snd (setItem st k (JSONText v)))"
  using assms by (simp add: json_store_def setItem_def Let_def)

lemma json_store_saveToStorage:
  assumes "json_store st"
  shows "json_store (snd (saveToStorage st key d))"
  unfolding saveToStorage_eq snd_conv
  by (rule json_store_setItem [OF assms to_json_idem])

lemma json_store_storeCriticalError:
  assumes "json_store st"
  shows "json_store (storeCriticalError st e)"
  using assms json_store_setItem [OF assms to_json_idem]
  by (simp add: storeCriticalError_def Let_def JSON_stringify_def
      del: to_json.simps split: sum.splits js.splits option.splits)

lemma json_store_logError:
  assumes "json_store st"
  shows "json_store (logError st e)"
proof -
  have "json_store (st\<lparr> errorLog := es \<rparr>)" for es
    using assms by (simp add: json_store_def)
  from json_store_storeCriticalError [OF this] this show ?thesis
    by (simp add: logError_def Let_def)
qed

lemma json_store_createError:
  "json_store st \<Longrightarrow> json_store (snd (createError st c msg opname d))"
  by (simp add: createError_def Let_def json_store_logError)

lemma json_store_validateStorageData:
  "json_store st \<Longrightarrow> json_store (snd (validateStorageData st key d v))"
  by (simp add: validateStorageData_def json_store_createError split: sum.splits)

lemma json_store_only_log: "only_log st st' \<Longrightarrow> json_store st' = json_store st"
  by (rule json_store_same) (simp add: only_log_fields)

lemma json_store_saveSessionData:
  "json_store st \<Longrightarrow> json_store (snd (saveSessionData st x))"
  by (simp add: saveSessionData_def split_beta json_store_validateStorageData
      json_store_saveToStorage)


















lemma json_store_loadSessionData: "json_store (snd (loadSessionData st)) = json_store st"
  by (rule json_store_only_log [OF only_log_loadSessionData])







lemma json_store_addBookmark:
  "json_store st \<Longrightarrow> json_store (snd (addBookmark st rnd ci sp note))"
  by (simp add: addBookmark_def Let_def split_beta json_store_saveSessionData
      json_store_loadSessionData del: set_prop.simps read_prop.simps split: js.splits)

lemma json_store_removeBookmark:
  "json_store st \<Longrightarrow> json_store (snd (removeBookmark st x))"
  by (simp add: removeBookmark_def Let_def split_beta json_store_saveSessionData
      json_store_loadSessionData del: set_prop.simps read_prop.simps split: js.splits)





lemma same_reporting_refl [simp]: "same_reporting st st"
  by (simp add: same_reporting_def)

lemma same_reporting_trans:
  "same_reporting a b \<Longrightarrow> same_reporting b c \<Longrightarrow> same_reporting a c"
  by (simp add: same_reporting_def)

lemma store_only_reporting:
  assumes "store_only st st'"
  shows "same_reporting st st'" and "clock st' = clock st"
  using assms by (cases st, cases st', simp add: store_only_def same_reporting_def)+

lemma store_only_setItem: "store_only st (snd (setItem st k t))"
  by (simp add: setItem_def Let_def store_only_def)



lemma saveToStorage_reporting:
  "same_reporting st (snd (saveToStorage st key d))"
  "clock (snd (saveToStorage st key d)) = clock st"
  using store_only_reporting [OF store_only_setItem]
  by (simp_all add: saveToStorage_eq)

lemma fire_reporting: "same_reporting st (fire st t)"
proof -
  let ?s = "st\<lparr> timers := filter (\<lambda>u. tid u \<noteq> tid t) (timers st), clock := max (clock st) (due t) \<rparr>"
  have a: "same_reporting st ?s" by (simp add: same_reporting_def)
  have b: "same_reporting ?s (snd (saveToStorage ?s (tkey t) (tdata t)))"
    by (rule saveToStorage_reporting)
  from same_reporting_trans [OF a b] show ?thesis
    by (simp add: fire_def debounce_callback_def Let_def same_reporting_def)
qed

lemma clock_fire: "clock (fire st t) = max (clock st) (due t)"
  by (simp add: fire_def debounce_callback_def Let_def saveToStorage_reporting)

lemma next_due_le: "next_due st T = Some t \<Longrightarrow> due t \<le> T"
  using earliest_mem [of "filter (\<lambda>t. due t \<le> T) (timers st)" t]
  by (simp add: next_due_def)

lemma run_until_reporting:
  "same_reporting st (run_until T st) \<and> clock (run_until T st) = max (clock st) T"
proof (induction T st rule: run_until.induct)
  case (1 T st)
  show ?case
  proof (cases "next_due st T")
    case None
    then show ?thesis
      by (subst (1 2) run_until.simps) (simp add: same_reporting_def)
  next
    case (Some t)
    from "1.IH" [OF Some]
    have ih: "same_reporting (fire st t) (run_until T (fire st t))"
      "clock (run_until T (fire st t)) = max (clock (fire st t)) T"
      by simp_all
    have r: "run_until T st = run_until T (fire st t)"
      using Some by (subst run_until.simps) simp
    from next_due_le [OF Some] have "due t \<le> T" .
    with ih show ?thesis
      unfolding r using same_reporting_trans [OF fire_reporting [of st t] ih(1)]
      by (simp add: clock_fire)
  qed
qed

lemma sleep_reporting:
  "same_reporting st (sleep st d)" "clock (sleep st d) = clock st + d"
  using run_until_reporting [of st "clock st + d"] by (simp_all add: sleep_def)











lemma timers_ok_initial: "timers st = [] \<Longrightarrow> debounceTimers st = Map.empty \<Longrightarrow> timers_ok st"
  by (simp add: timers_ok_def)

lemma timers_ok_own:
  assumes "timers_ok st" and "t \<in> set (timers st)"
  shows "debounceTimers st (tkey t) = Some (tid t)" and "0 < tid t" and "tid t \<le> lastTimerId st"
    and "debounceTimers st k = Some (tid t) \<Longrightarrow> k = tkey t"
proof -
  from assms have a: "0 < tid t \<and> tid t \<le> lastTimerId st
      \<and> (\<forall>k. debounceTimers st k = Some (tid t) \<longleftrightarrow> k = tkey t)"
    unfolding timers_ok_def by blast
  from a show "debounceTimers st (tkey t) = Some (tid t)" by blast
  from a show "0 < tid t" by blast
  from a show "tid t \<le> lastTimerId st" by blast
  assume "debounceTimers st k = Some (tid t)"
  with a show "k = tkey t" by blast
qed

lemma cancel_pending_ok:
  assumes "timers_ok st"
  shows "cancel_pending st key = filter (\<lambda>t. tkey t \<noteq> key) (timers st)"
proof (cases "debounceTimers st key")
  case None
  with timers_ok_own(1) [OF assms] have "\<forall>t \<in> set (timers st). tkey t \<noteq> key"
    by fastforce
  with None show ?thesis
    by (simp add: cancel_pending_def)
next
  case (Some h)
  have own: "\<forall>t \<in> set (timers st). tid t = h \<longleftrightarrow> tkey t = key"
    using timers_ok_own(1,4) [OF assms] Some by fastforce
  show ?thesis
  proof (cases "h = 0")
    case True
    with own timers_ok_own(2) [OF assms] have "\<forall>t \<in> set (timers st). tkey t \<noteq> key"
      by fastforce
    with Some True show ?thesis
      by (simp add: cancel_pending_def)
  next
    case False
    from own have "filter (\<lambda>t. tid t \<noteq> h) (timers st) = filter (\<lambda>t. tkey t \<noteq> key) (timers st)"
      by (intro filter_cong) auto
    with Some False show ?thesis
      by (simp add: cancel_pending_def)
  qed
qed

lemma timers_debouncedSave:
  assumes "timers_ok st"
  shows "timers (debouncedSave st key d delay) =
           filter (\<lambda>t. tkey t \<noteq> key) (timers st)
           @ [\<lparr> tid = Suc (lastTimerId st), due = clock st + delay, tkey = key, tdata = d \<rparr>]"
  by (simp add: debouncedSave_eq cancel_pending_ok [OF assms])

lemma pending_debouncedSave:
  assumes "timers_ok st"
  shows "pending_for key (debouncedSave st key d delay) =
           [\<lparr> tid = Suc (lastTimerId st), due = clock st + delay, tkey = key, tdata = d \<rparr>]"
    and "k \<noteq> key \<Longrightarrow> pending_for k (debouncedSave st key d delay) = pending_for k st"
proof -
  have "filter (\<lambda>t. tkey t = key) (filter (\<lambda>t. tkey t \<noteq> key) (timers st)) = []"
    by (simp add: filter_empty_conv)
  then show "pending_for key (debouncedSave st key d delay) =
           [\<lparr> tid = Suc (lastTimerId st), due = clock st + delay, tkey = key, tdata = d \<rparr>]"
    by (simp add: pending_for_def timers_debouncedSave [OF assms])
  assume "k \<noteq> key"
  then have "filter (\<lambda>t. tkey t = k) (filter (\<lambda>t. tkey t \<noteq> key) (timers st))
               = filter (\<lambda>t. tkey t = k) (timers st)"
    by (auto intro: filter_cong)
  with \<open>k \<noteq> key\<close> show "pending_for k (debouncedSave st key d delay) = pending_for k st"
    by (simp add: pending_for_def timers_debouncedSave [OF assms])
qed

lemma timers_ok_debouncedSave:
  assumes "timers_ok st"
  shows "timers_ok (debouncedSave st key d delay)"
proof -
  let ?h = "Suc (lastTimerId st)"
  let ?st' = "debouncedSave st key d delay"
  have tm: "timers ?st' = filter (\<lambda>t. tkey t \<noteq> key) (timers st)
             @ [\<lparr> tid = ?h, due = clock st + delay, tkey = key, tdata = d \<rparr>]"
    by (rule timers_debouncedSave [OF assms])
  have dt: "debounceTimers ?st' = (debounceTimers st)(key \<mapsto> ?h)"
    and lt: "lastTimerId ?st' = ?h"
    by (simp_all add: debouncedSave_eq)
  from assms have old: "\<forall>t \<in> set (timers st). 0 < tid t \<and> tid t \<le> lastTimerId st
            \<and> (\<forall>k. debounceTimers st k = Some (tid t) \<longleftrightarrow> k = tkey t)"
    and dist: "distinct (map tid (timers st))"
    and hs: "\<forall>k h. debounceTimers st k = Some h \<longrightarrow> h \<le> lastTimerId st"
    by (simp_all add: timers_ok_def)
  have d': "distinct (map tid (timers ?st'))"
    using dist old by (auto simp: tm distinct_map_filter)
  have h': "\<forall>k h. debounceTimers ?st' k = Some h \<longrightarrow> h \<le> lastTimerId ?st'"
    using hs by (auto simp: dt lt le_Suc_eq)
  have t': "\<forall>t \<in> set (timers ?st'). 0 < tid t \<and> tid t \<le> lastTimerId ?st'
            \<and> (\<forall>k. debounceTimers ?st' k = Some (tid t) \<longleftrightarrow> k = tkey t)"
  proof
    fix t assume "t \<in> set (timers ?st')"
    then consider (new) "t = \<lparr> tid = ?h, due = clock st + delay, tkey = key, tdata = d \<rparr>"
      | (old) "t \<in> set (timers st)" "tkey t \<noteq> key"
      by (auto simp: tm)
    then show "0 < tid t \<and> tid t \<le> lastTimerId ?st'
            \<and> (\<forall>k. debounceTimers ?st' k = Some (tid t) \<longleftrightarrow> k = tkey t)"
    proof cases
      case new
      have "debounceTimers st k \<noteq> Some ?h" for k
        using hs by (metis Suc_n_not_le_n)
      with new show ?thesis by (simp add: dt lt)
    next
      case old
      with \<open>\<forall>t \<in> set (timers st). _\<close> have o: "0 < tid t" "tid t \<le> lastTimerId st"
        "\<And>k. debounceTimers st k = Some (tid t) \<longleftrightarrow> k = tkey t"
        by blast+
      from o old(2) show ?thesis by (auto simp: dt lt)
    qed
  qed
  from d' h' t' show ?thesis
    unfolding timers_ok_def by blast
qed

lemma fire_fields:
  "debounceTimers (fire st u) = (debounceTimers st)(tkey u := None)"
  "lastTimerId (fire st u) = lastTimerId st"
  "quotaAccepts (fire st u) = quotaAccepts st"
  "setItemCalls (fire st u) =
     setItemCalls st @ [(max (clock st) (due u), tkey u,
                         written_text (toISOString st) (max (clock st) (due u)) (tdata u))]"
  "localStorage (fire st u) =
     (if quotaAccepts st (localStorage st) (tkey u)
           (written_text (toISOString st) (max (clock st) (due u)) (tdata u))
      then (localStorage st)(tkey u \<mapsto> written_text (toISOString st) (max (clock st) (due u)) (tdata u))
      else localStorage st)"
  by (simp_all add: fire_def debounce_callback_def Let_def saveToStorage_eq setItem_def
      envelope_def written_text_def nowISO_def)

lemma earliest_None: "earliest ts = None \<Longrightarrow> ts = []"
  by (cases ts) (auto split: option.splits if_splits)

lemma earliest_least: "earliest ts = Some u \<Longrightarrow> t \<in> set ts \<Longrightarrow> due u \<le> due t"
proof (induction ts arbitrary: u)
  case Nil
  then show ?case by simp
next
  case (Cons a ts)
  show ?case
  proof (cases "earliest ts")
    case None
    then have "ts = []" by (rule earliest_None)
    with Cons.prems None show ?thesis by simp
  next
    case (Some v)
    from Cons.IH [OF Some] have least: "t \<in> set ts \<Longrightarrow> due v \<le> due t" .
    from Cons.prems Some least show ?thesis
      by (auto split: if_splits)
  qed
qed

lemma next_due_props:
  assumes "next_due st T = Some u"
  shows "u \<in> set (timers st)" and "due u \<le> T"
    and "t \<in> set (timers st) \<Longrightarrow> due t \<le> T \<Longrightarrow> due u \<le> due t"
proof -
  from assms have e: "earliest (filter (\<lambda>t. due t \<le> T) (timers st)) = Some u"
    by (simp add: next_due_def)
  from earliest_mem [OF e] show "u \<in> set (timers st)" "due u \<le> T" by simp_all
  assume "t \<in> set (timers st)" "due t \<le> T"
  then have "t \<in> set (filter (\<lambda>t. due t \<le> T) (timers st))" by simp
  from earliest_least [OF e this] show "due u \<le> due t" .
qed

lemma next_due_None:
  "next_due st T = None \<Longrightarrow> t \<in> set (timers st) \<Longrightarrow> T < due t"
proof -
  assume n: "next_due st T = None" and t: "t \<in> set (timers st)"
  from n have "filter (\<lambda>t. due t \<le> T) (timers st) = []"
    by (simp add: next_due_def earliest_None)
  with t show "T < due t"
    by (auto simp: filter_empty_conv)
qed

lemma timers_ok_fire:
  assumes "timers_ok st" and "u \<in> set (timers st)"
  shows "timers_ok (fire st u)"
proof -
  from assms(1) have "distinct (map tid (timers st))"
    unfolding timers_ok_def by blast
  then have d: "distinct (map tid (timers (fire st u)))"
    by (simp add: timers_fire distinct_map_filter)
  from assms(1) have hs: "\<forall>k h. debounceTimers st k = Some h \<longrightarrow> h \<le> lastTimerId st"
    unfolding timers_ok_def by blast
  have h: "\<forall>k h. debounceTimers (fire st u) k = Some h \<longrightarrow> h \<le> lastTimerId (fire st u)"
    using hs by (simp add: fire_fields)
  have t: "0 < tid t \<and> tid t \<le> lastTimerId (fire st u)
            \<and> (\<forall>k. debounceTimers (fire st u) k = Some (tid t) \<longleftrightarrow> k = tkey t)"
    if "t \<in> set (timers (fire st u))" for t
  proof -
    from that have m: "t \<in> set (timers st)" and ne: "tid t \<noteq> tid u"
      by (simp_all add: timers_fire)
    note o = timers_ok_own [OF assms(1) m]
    have ne_key: "tkey t \<noteq> tkey u"
      using timers_ok_own(1) [OF assms(1) assms(2)] o(1) ne by auto
    have own: "debounceTimers (fire st u) k = Some (tid t) \<longleftrightarrow> k = tkey t" for k
    proof
      assume "debounceTimers (fire st u) k = Some (tid t)"
      then have "debounceTimers st k = Some (tid t)"
        by (simp add: fire_fields split: if_splits)
      then show "k = tkey t" by (rule o(4))
    next
      assume "k = tkey t"
      with ne_key o(1) show "debounceTimers (fire st u) k = Some (tid t)"
        by (simp add: fire_fields)
    qed
    from o(2) o(3) own show ?thesis
      by (simp add: fire_fields)
  qed
  from d h t show ?thesis
    unfolding timers_ok_def by blast
qed

lemma calls_for_fire:
  "calls_for key (fire st u) =
     calls_for key st @
       (if tkey u = key
        then [(max (clock st) (due u), key,
               written_text (toISOString st) (max (clock st) (due u)) (tdata u))]
        else [])"
  by (simp add: calls_for_def fire_fields)

lemma pending_for_fire:
  "pending_for key (fire st u) = filter (\<lambda>t. tid t \<noteq> tid u) (pending_for key st)"
  by (simp add: pending_for_def timers_fire conj_commute)

lemma run_until_None: "next_due st T = None \<Longrightarrow> run_until T st = st\<lparr> clock := max (clock st) T \<rparr>"
  by (subst run_until.simps) simp

lemma run_until_Some: "next_due st T = Some u \<Longrightarrow> run_until T st = run_until T (fire st u)"
  by (subst run_until.simps) simp

lemma timers_ok_clock [simp]: "timers_ok (st\<lparr> clock := c \<rparr>) = timers_ok st"
  by (simp add: timers_ok_def)

lemma timers_ok_run_until: "timers_ok st \<Longrightarrow> timers_ok (run_until T st)"
proof (induction T st rule: run_until.induct)
  case (1 T st)
  show ?case
  proof (cases "next_due st T")
    case None
    with "1.prems" show ?thesis by (simp add: run_until_None)
  next
    case (Some u)
    from next_due_props(1) [OF Some] "1.prems" have "timers_ok (fire st u)"
      by (intro timers_ok_fire)
    from "1.IH" [OF Some this] show ?thesis
      by (simp add: run_until_Some [OF Some])
  qed
qed

lemma pending_mem: "u \<in> set (timers st) \<Longrightarrow> tkey u = key \<Longrightarrow> u \<in> set (pending_for key st)"
  by (simp add: pending_for_def)

lemma other_key_fire:
  assumes "tkey u \<noteq> key"
  shows "calls_for key (fire st u) = calls_for key st"
    and "localStorage (fire st u) key = localStorage st key"
  using assms by (simp_all add: calls_for_fire fire_fields)

lemma run_until_no_pending:
  assumes "timers_ok st" and "pending_for key st = []"
  shows "calls_for key (run_until T st) = calls_for key st
         \<and> pending_for key (run_until T st) = []
         \<and> localStorage (run_until T st) key = localStorage st key"
  using assms
proof (induction T st rule: run_until.induct)
  case (1 T st)
  show ?case
  proof (cases "next_due st T")
    case None
    with "1.prems" show ?thesis
      by (simp add: run_until_None calls_for_def pending_for_def)
  next
    case (Some u)
    note mem = next_due_props(1) [OF Some]
    have other: "tkey u \<noteq> key"
      using pending_mem [OF mem] "1.prems"(2) by auto
    have ok: "timers_ok (fire st u)"
      using "1.prems"(1) mem by (rule timers_ok_fire)
    have pf: "pending_for key (fire st u) = []"
      using "1.prems"(2) by (simp add: pending_for_fire)
    from "1.IH" [OF Some ok pf] other_key_fire [OF other, of st] show ?thesis
      by (simp add: run_until_Some [OF Some])
  qed
qed

lemma same_tid_same_timer:
  assumes "timers_ok st" and "u \<in> set (timers st)" and "t \<in> set (timers st)"
    and "tid u = tid t"
  shows "u = t"
proof -
  from assms(1) have "distinct (map tid (timers st))"
    unfolding timers_ok_def by blast
  then have "inj_on tid (set (timers st))"
    by (simp add: distinct_map)
  with assms(2-4) show ?thesis
    by (auto dest: inj_onD)
qed

lemma pending_single:
  assumes "pending_for key st = [t]"
  shows "t \<in> set (timers st)" and "tkey t = key"
    and "u \<in> set (timers st) \<Longrightarrow> tkey u = key \<Longrightarrow> u = t"
proof -
  have "t \<in> set (pending_for key st)" using assms by simp
  then show "t \<in> set (timers st)" "tkey t = key"
    by (simp_all add: pending_for_def)
  assume "u \<in> set (timers st)" "tkey u = key"
  then have "u \<in> set (pending_for key st)" by (simp add: pending_for_def)
  with assms show "u = t" by simp
qed

lemma store_accepts_fire: "store_accepts (fire st u) = store_accepts st"
  by (simp add: store_accepts_def fire_fields)

lemma toISOString_fire: "toISOString (fire st u) = toISOString st"
  using fire_reporting [of st u] by (simp add: same_reporting_def)

lemma run_until_before_due:
  assumes "timers_ok st" and "pending_for key st = [t]" and "T < due t"
  shows "calls_for key (run_until T st) = calls_for key st
         \<and> pending_for key (run_until T st) = [t]
         \<and> localStorage (run_until T st) key = localStorage st key"
  using assms
proof (induction T st rule: run_until.induct)
  case (1 T st)
  show ?case
  proof (cases "next_due st T")
    case None
    with "1.prems" show ?thesis
      by (simp add: run_until_None calls_for_def pending_for_def)
  next
    case (Some u)
    note mem = next_due_props(1) [OF Some]
    from next_due_props(2) [OF Some] "1.prems"(3) have "due u \<noteq> due t" by simp
    then have "u \<noteq> t" by auto
    with pending_single(3) [OF "1.prems"(2) mem] have other: "tkey u \<noteq> key" by auto
    have "tid t \<noteq> tid u"
      using same_tid_same_timer [OF "1.prems"(1) mem pending_single(1) [OF "1.prems"(2)]] \<open>u \<noteq> t\<close>
      by auto
    then have pf: "pending_for key (fire st u) = [t]"
      using "1.prems"(2) by (simp add: pending_for_fire)
    have ok: "timers_ok (fire st u)"
      using "1.prems"(1) mem by (rule timers_ok_fire)
    from "1.IH" [OF Some ok pf "1.prems"(3)] other_key_fire [OF other, of st] show ?thesis
      by (simp add: run_until_Some [OF Some])
  qed
qed

lemma run_until_past_due:
  assumes "timers_ok st" and "pending_for key st = [t]" and "clock st \<le> due t" and "due t \<le> T"
  shows "calls_for key (run_until T st) =
           calls_for key st @ [(due t, key, written_text (toISOString st) (due t) (tdata t))]
         \<and> pending_for key (run_until T st) = []
         \<and> (store_accepts st \<longrightarrow>
              localStorage (run_until T st) key
                = Some (written_text (toISOString st) (due t) (tdata t)))"
  using assms
proof (induction T st rule: run_until.induct)
  case (1 T st)
  note tm = pending_single [OF "1.prems"(2)]
  show ?case
  proof (cases "next_due st T")
    case None
    from next_due_None [OF None tm(1)] "1.prems"(4) show ?thesis by simp
  next
    case (Some u)
    note mem = next_due_props(1) [OF Some]
    have ok: "timers_ok (fire st u)"
      using "1.prems"(1) mem by (rule timers_ok_fire)
    show ?thesis
    proof (cases "u = t")
      case True
      have mx: "max (clock st) (due t) = due t"
        using "1.prems"(3) by simp
      have pf: "pending_for key (fire st t) = []"
        using "1.prems"(2) by (simp add: pending_for_fire)
      have cf: "calls_for key (fire st t) =
                  calls_for key st @ [(due t, key, written_text (toISOString st) (due t) (tdata t))]"
        using tm(2) by (simp add: calls_for_fire mx)
      have ls: "store_accepts st \<Longrightarrow>
                localStorage (fire st t) key = Some (written_text (toISOString st) (due t) (tdata t))"
        using tm(2) by (simp add: fire_fields mx store_accepts_def)
      from run_until_no_pending [OF ok [unfolded True] pf, of T] cf ls show ?thesis
        by (simp add: run_until_Some [OF Some] True)
    next
      case False
      with tm(3) [OF mem] have other: "tkey u \<noteq> key" by auto
      have "tid t \<noteq> tid u"
        using same_tid_same_timer [OF "1.prems"(1) mem tm(1)] False by auto
      then have pf: "pending_for key (fire st u) = [t]"
        using "1.prems"(2) by (simp add: pending_for_fire)
      from next_due_props(3) [OF Some tm(1) "1.prems"(4)] "1.prems"(3)
      have ck: "clock (fire st u) \<le> due t"
        by (simp add: clock_fire)
      from "1.IH" [OF Some ok pf ck "1.prems"(4)] other_key_fire [OF other, of st]
      show ?thesis
        by (simp add: run_until_Some [OF Some] toISOString_fire store_accepts_fire)
    qed
  qed
qed

lemma store_accepts_run_until: "store_accepts (run_until T st) = store_accepts st"
proof (induction T st rule: run_until.induct)
  case (1 T st)
  show ?case
  proof (cases "next_due st T")
    case None
    then show ?thesis by (simp add: run_until_None store_accepts_def)
  next
    case (Some u)
    from "1.IH" [OF Some] show ?thesis
      by (simp add: run_until_Some [OF Some] store_accepts_fire)
  qed
qed

lemma debouncedSave_fields:
  "clock (debouncedSave st key d delay) = clock st"
  "lastTimerId (debouncedSave st key d delay) = Suc (lastTimerId st)"
  "toISOString (debouncedSave st key d delay) = toISOString st"
  "localStorage (debouncedSave st key d delay) = localStorage st"
  "calls_for k (debouncedSave st key d delay) = calls_for k st"
  "store_accepts (debouncedSave st key d delay) = store_accepts st"
  by (simp_all add: debouncedSave_eq calls_for_def store_accepts_def)

lemma last_call: "snd (last ((0, snd c) # calls)) = snd (last ((0, d) # c # calls))"
  by (cases calls) simp_all

lemma burst_invariant:
  assumes "\<forall>c \<in> set calls. fst c < delay"
    and "timers_ok s"
    and "pending_for key s = [\<lparr> tid = lastTimerId s, due = clock s + delay, tkey = key, tdata = d \<rparr>]"
  shows "timers_ok (debounce_burst s key delay calls)
    \<and> pending_for key (debounce_burst s key delay calls)
        = [\<lparr> tid = lastTimerId (debounce_burst s key delay calls),
             due = clock (debounce_burst s key delay calls) + delay, tkey = key,
             tdata = snd (last ((0, d) # calls)) \<rparr>]
    \<and> calls_for key (debounce_burst s key delay calls) = calls_for key s
    \<and> localStorage (debounce_burst s key delay calls) key = localStorage s key
    \<and> toISOString (debounce_burst s key delay calls) = toISOString s
    \<and> store_accepts (debounce_burst s key delay calls) = store_accepts s
    \<and> clock (debounce_burst s key delay calls) = clock s + sum_list (map fst calls)"
  using assms
proof (induction calls arbitrary: s d)
  case Nil
  then show ?case by simp
next
  case (Cons c calls)
  let ?t = "\<lparr> tid = lastTimerId s, due = clock s + delay, tkey = key, tdata = d \<rparr>"
  let ?s1 = "sleep s (fst c)"
  let ?s2 = "debouncedSave ?s1 key (snd c) delay"
  from Cons.prems(1) have gap: "fst c < delay" and rest: "\<forall>c \<in> set calls. fst c < delay"
    by simp_all
  from gap have before: "clock s + fst c < due ?t" by simp
  have ok1: "timers_ok ?s1"
    unfolding sleep_def using Cons.prems(2) by (rule timers_ok_run_until)
  from run_until_before_due [OF Cons.prems(2) Cons.prems(3) before]
  have q1: "calls_for key ?s1 = calls_for key s" "localStorage ?s1 key = localStorage s key"
    by (simp_all add: sleep_def)
  have c1: "clock ?s1 = clock s + fst c" and i1: "toISOString ?s1 = toISOString s"
    using sleep_reporting [of s "fst c"] by (simp_all add: same_reporting_def)
  have a1: "store_accepts ?s1 = store_accepts s"
    by (simp add: sleep_def store_accepts_run_until)
  have ok2: "timers_ok ?s2"
    using ok1 by (rule timers_ok_debouncedSave)
  have p2: "pending_for key ?s2 =
              [\<lparr> tid = lastTimerId ?s2, due = clock ?s2 + delay, tkey = key, tdata = snd c \<rparr>]"
    by (simp add: pending_debouncedSave(1) [OF ok1] debouncedSave_fields)
  from Cons.IH [OF rest ok2 p2]
  show ?case
    by (simp add: debouncedSave_fields q1 c1 i1 a1 last_call [of c calls d] add.assoc
        del: last.simps)
qed

lemma first_call:
  assumes "timers_ok st"
  shows "timers_ok (debouncedSave st key d delay)"
    and "pending_for key (debouncedSave st key d delay)
           = [\<lparr> tid = lastTimerId (debouncedSave st key d delay),
                due = clock (debouncedSave st key d delay) + delay, tkey = key, tdata = d \<rparr>]"
  using assms
  by (simp_all add: timers_ok_debouncedSave pending_debouncedSave(1) debouncedSave_fields)

lemma debounce_coalescing_aux:
  assumes "timers_ok st" and "\<forall>c \<in> set calls. fst c < delay"
  shows "clock (burst_end st key delay d0 calls) = clock st + sum_list (map fst calls)"
    and "calls_for key (burst_end st key delay d0 calls) = calls_for key st"
    and "T < clock (burst_end st key delay d0 calls) + delay \<Longrightarrow>
           calls_for key (run_until T (burst_end st key delay d0 calls)) = calls_for key st"
    and "clock (burst_end st key delay d0 calls) + delay \<le> T \<Longrightarrow>
           calls_for key (run_until T (burst_end st key delay d0 calls))
             = calls_for key st
               @ [(clock (burst_end st key delay d0 calls) + delay, key,
                   written_text (toISOString st) (clock (burst_end st key delay d0 calls) + delay)
                     (snd (last ((0, d0) # calls))))]"
    and "clock (burst_end st key delay d0 calls) + delay \<le> T \<Longrightarrow> store_accepts st \<Longrightarrow>
           localStorage (run_until T (burst_end st key delay d0 calls)) key
             = Some (written_text (toISOString st) (clock (burst_end st key delay d0 calls) + delay)
                       (snd (last ((0, d0) # calls))))"
proof -
  let ?s1 = "debouncedSave st key d0 delay"
  let ?f = "burst_end st key delay d0 calls"
  let ?t = "\<lparr> tid = lastTimerId ?f, due = clock ?f + delay, tkey = key,
             tdata = snd (last ((0, d0) # calls)) \<rparr>"
  note fc = first_call [OF assms(1), of key d0 delay]
  from burst_invariant [OF assms(2) fc]
  have ok: "timers_ok ?f" and pf: "pending_for key ?f = [?t]"
    and cf: "calls_for key ?f = calls_for key st"
    and iso: "toISOString ?f = toISOString st"
    and acc: "store_accepts ?f = store_accepts st"
    and ck: "clock ?f = clock st + sum_list (map fst calls)"
    by (simp_all add: burst_end_def debouncedSave_fields)
  show "clock ?f = clock st + sum_list (map fst calls)" by (rule ck)
  show "calls_for key ?f = calls_for key st" by (rule cf)
  have due: "due ?t = clock ?f + delay" and dat: "tdata ?t = snd (last ((0, d0) # calls))"
    by simp_all
  {
    assume "T < clock ?f + delay"
    then have "T < due ?t" by simp
    from run_until_before_due [OF ok pf this] cf
    show "calls_for key (run_until T ?f) = calls_for key st" by simp
  }
  have le: "clock ?f \<le> due ?t" by simp
  {
    assume "clock ?f + delay \<le> T"
    then have "due ?t \<le> T" by simp
    from run_until_past_due [OF ok pf le this]
    show "calls_for key (run_until T ?f)
             = calls_for key st
               @ [(clock ?f + delay, key,
                   written_text (toISOString st) (clock ?f + delay) (snd (last ((0, d0) # calls))))]"
      by (simp only: due dat cf iso)
  }
  {
    assume "clock ?f + delay \<le> T" and a: "store_accepts st"
    then have "due ?t \<le> T" by simp
    from run_until_past_due [OF ok pf le this] a
    show "localStorage (run_until T ?f) key
             = Some (written_text (toISOString st) (clock ?f + delay) (snd (last ((0, d0) # calls))))"
      by (simp only: due dat iso acc)
  }
qed

text \<open>
  C5. In a state whose timer bookkeeping is consistent (every pending timeout is the
  one recorded for its key), let debouncedSave be called for one key with data
  \<open>d0\<close> and then again with the data of \<open>calls\<close>, each call less than the delay
  after the one before. Up to one delay after the last call no \<open>setItem\<close> call is
  made for the key. From then on exactly one has been made: at that time, with the
  data of the last call in the envelope that saveToStorage writes; the store holds
  that text when it accepts writes. And a debouncedSave for one key leaves the
  pending timeouts of every other key in place.
\<close>

theorem debounce_coalescing:
  assumes "timers_ok st" and "\<forall>c \<in> set calls. fst c < delay"
  shows "clock (burst_end st key delay d0 calls) = clock st + sum_list (map fst calls)
    \<and> calls_for key (burst_end st key delay d0 calls) = calls_for key st
    \<and> (\<forall>T. T < clock (burst_end st key delay d0 calls) + delay \<longrightarrow>
           calls_for key (run_until T (burst_end st key delay d0 calls)) = calls_for key st)
    \<and> (\<forall>T. clock (burst_end st key delay d0 calls) + delay \<le> T \<longrightarrow>
           calls_for key (run_until T (burst_end st key delay d0 calls))
             = calls_for key st
               @ [(clock (burst_end st key delay d0 calls) + delay, key,
                   written_text (toISOString st) (clock (burst_end st key delay d0 calls) + delay)
                     (snd (last ((0, d0) # calls))))]
           \<and> (store_accepts st \<longrightarrow>
                localStorage (run_until T (burst_end st key delay d0 calls)) key
                  = Some (written_text (toISOString st)
                            (clock (burst_end st key delay d0 calls) + delay)
                            (snd (last ((0, d0) # calls))))))
    \<and> (\<forall>k v. k \<noteq> key \<longrightarrow> pending_for k (debouncedSave st key v delay) = pending_for k st)"
  using debounce_coalescing_aux [OF assms, where key = key and ?d0.0 = d0]
    pending_debouncedSave(2) [OF assms(1)]
  by (simp del: last.simps)

theorem debounce_coalescing_witness:
  "timers_ok sample_sys
   \<and> clock (burst_end sample_sys READING_STATE 1000 (JStr ''a'')
               [(100, JStr ''b''), (100, JStr ''c'')]) = 200
   \<and> calls_for READING_STATE
        (run_until 1199 (burst_end sample_sys READING_STATE 1000 (JStr ''a'')
                           [(100, JStr ''b''), (100, JStr ''c'')])) = []
   \<and> calls_for READING_STATE
        (run_until 1200 (burst_end sample_sys READING_STATE 1000 (JStr ''a'')
                           [(100, JStr ''b''), (100, JStr ''c'')]))
       = [(1200, READING_STATE, written_text string_of_nat 1200 (JStr ''c''))]"
proof -
  have ok: "timers_ok sample_sys"
    by (simp add: timers_ok_def sample_sys_def)
  have gaps: "\<forall>c \<in> set [(100, JStr ''b''), (100, JStr ''c'')]. fst c < (1000::nat)"
    by simp
  have none: "calls_for READING_STATE sample_sys = []"
    by (simp add: calls_for_def sample_sys_def)
  have iso: "toISOString sample_sys = string_of_nat" and ck: "clock sample_sys = 0"
    by (simp_all add: sample_sys_def)
  from debounce_coalescing [OF ok gaps, where key = READING_STATE and ?d0.0 = "JStr ''a''"] ok
  show ?thesis
    by (simp add: none iso ck)
qed

text \<open>
  Every write of the storage layer stores the text that \<open>JSON.stringify\<close> made, so a
  store that holds JSON texts still does after any of its operations.
\<close>

lemma json_store_slice_saves:
  assumes "json_store st"
  shows "json_store (snd (saveUserPreferences st x))"
    and "json_store (snd (saveReadingState st x))"
    and "json_store (snd (saveUIState st x))"
  using assms
  by (simp_all add: saveUserPreferences_def saveReadingState_def saveUIState_def split_beta
      json_store_validateStorageData json_store_saveToStorage)

lemma json_store_debouncedSave: "json_store (debouncedSave st key d delay) = json_store st"
  by (rule json_store_same) (simp add: debouncedSave_fields)

lemma json_store_fire:
  assumes "json_store st"
  shows "json_store (fire st u)"
proof -
  have "to_json v = v"
    if "localStorage (fire st u) k = Some (JSONText v)" for k v
  proof (cases "localStorage (fire st u) k = localStorage st k")
    case True
    with that assms show ?thesis by (simp add: json_store_def)
  next
    case False
    then have "localStorage (fire st u) k
                 = Some (written_text (toISOString st) (max (clock st) (due u)) (tdata u))"
      by (simp add: fire_fields split: if_splits)
    with that have "v = to_json (JObj [(''data'', tdata u), (''version'', JStr VERSION),
                       (''timestamp'', JStr (toISOString st (max (clock st) (due u))))])"
      by (simp add: written_text_def del: to_json.simps)
    then show ?thesis by (simp only: to_json_idem)
  qed
  then show ?thesis by (simp add: json_store_def)
qed

lemma json_store_clock [simp]: "json_store (st\<lparr> clock := c \<rparr>) = json_store st"
  by (simp add: json_store_def)

lemma json_store_run_until: "json_store st \<Longrightarrow> json_store (run_until T st)"
proof (induction T st rule: run_until.induct)
  case (1 T st)
  show ?case
  proof (cases "next_due st T")
    case None
    with "1.prems" show ?thesis by (simp add: run_until_None)
  next
    case (Some u)
    from "1.IH" [OF Some json_store_fire [OF "1.prems"]] show ?thesis
      by (simp add: run_until_Some [OF Some])
  qed
qed

lemma json_store_sleep: "json_store st \<Longrightarrow> json_store (sleep st d)"
  by (simp add: sleep_def json_store_run_until)

lemma json_store_loadReadingState: "json_store (snd (loadReadingState st)) = json_store st"
  by (rule json_store_only_log [OF only_log_loadReadingState])

lemma json_store_updateScrollPosition:
  "json_store st \<Longrightarrow> json_store (snd (updateScrollPosition st i p))"
  by (simp add: updateScrollPosition_def split_beta Let_def json_store_debouncedSave
      json_store_loadReadingState del: set_prop.simps read_prop.simps split: sum.splits)

lemma json_store_saveChapterNavigation:
  "json_store st \<Longrightarrow> json_store (snd (saveChapterNavigation st n))"
  by (simp add: saveChapterNavigation_def split_beta Let_def json_store_slice_saves
      json_store_loadReadingState del: set_prop.simps)

lemma json_store_trim_critical:
  assumes "json_store st"
  shows "json_store (snd (trim_critical st v))"
proof -
  have "json_store (snd (setItem st k (JSONText (JStr s))))" for k s
    by (rule json_store_setItem [OF assms]) simp
  with assms json_store_setItem [OF assms to_json_idem] show ?thesis
    by (cases v)
       (simp_all add: trim_critical_def del: to_json.simps split: sum.splits bool.splits)
qed

lemma json_store_freeUpStorage:
  assumes "json_store st"
  shows "json_store (freeUpStorage st)"
proof -
  have drop: "json_store (s\<lparr> localStorage := (\<lambda>key. if P key then None else localStorage s key) \<rparr>)"
    if "json_store s" for s P
    using that by (simp add: json_store_def)
  from assms json_store_trim_critical [OF assms] drop show ?thesis
    by (simp add: freeUpStorage_def Let_def split_beta split: sum.splits option.splits)
qed

section \<open>Panel operations\<close>

lemma toggleTOC_exclusive: "\<not> both_open s \<Longrightarrow> \<not> both_open (toggleTOC s)"
  by (simp add: both_open_def toggleTOC_def Let_def)

lemma toggleSettings_exclusive: "\<not> both_open s \<Longrightarrow> \<not> both_open (toggleSettings s)"
  by (simp add: both_open_def toggleSettings_def Let_def)

lemma openPanel_exclusive: "\<not> both_open (openPanel p s)"
  by (cases p) (simp_all add: both_open_def openPanel_def)

lemma closeAllPanels_exclusive: "\<not> both_open (closeAllPanels s)"
  by (simp add: both_open_def closeAllPanels_def)

text \<open>
  C10. From a UI state in which the table of contents and the settings panel are not
  both shown, each panel operation (toggleTOC, toggleSettings, openPanel of either
  panel, closeAllPanels) leads to a state in which they are not both shown; a toggle
  or an openPanel that shows one panel hides the other.
\<close>

theorem panel_mutual_exclusion:
  assumes "\<not> (showTOC s \<and> showSettings s)"
  shows "\<not> (showTOC (panel_step opn s) \<and> showSettings (panel_step opn s))
         \<and> (showTOC (toggleTOC s) \<longrightarrow> \<not> showSettings (toggleTOC s))
         \<and> (showSettings (toggleSettings s) \<longrightarrow> \<not> showTOC (toggleSettings s))
         \<and> (showTOC (openPanel Toc s) \<and> \<not> showSettings (openPanel Toc s))
         \<and> (showSettings (openPanel Settings s) \<and> \<not> showTOC (openPanel Settings s))"
proof -
  from assms have start: "\<not> both_open s"
    by (simp add: both_open_def)
  have "\<not> both_open (panel_step opn s)"
  proof (cases opn)
    case ToggleTOC
    with start show ?thesis by (simp add: toggleTOC_exclusive)
  next
    case ToggleSettings
    with start show ?thesis by (simp add: toggleSettings_exclusive)
  next
    case (OpenPanel p)
    then show ?thesis by (simp add: openPanel_exclusive)
  next
    case CloseAllPanels
    then show ?thesis by (simp add: closeAllPanels_exclusive)
  qed
  then have step: "\<not> (showTOC (panel_step opn s) \<and> showSettings (panel_step opn s))"
    by (simp add: both_open_def)
  have tt: "showTOC (toggleTOC s) \<longrightarrow> \<not> showSettings (toggleTOC s)"
    by (simp add: toggleTOC_def Let_def)
  have ts: "showSettings (toggleSettings s) \<longrightarrow> \<not> showTOC (toggleSettings s)"
    by (simp add: toggleSettings_def Let_def)
  have ot: "showTOC (openPanel Toc s) \<and> \<not> showSettings (openPanel Toc s)"
    by (simp add: openPanel_def)
  have os: "showSettings (openPanel Settings s) \<and> \<not> showTOC (openPanel Settings s)"
    by (simp add: openPanel_def)
  from step tt ts ot os show ?thesis by blast
qed

theorem panel_mutual_exclusion_witness:
  "\<not> (showTOC sampleUI \<and> showSettings sampleUI)
   \<and> \<not> (showTOC (panel_step ToggleSettings sampleUI) \<and> showSettings (panel_step ToggleSettings sampleUI))
   \<and> showSettings (panel_step ToggleSettings sampleUI)
   \<and> \<not> showTOC (panel_step ToggleSettings sampleUI)"
proof -
  have h: "\<not> (showTOC sampleUI \<and> showSettings sampleUI)"
    by (simp add: sampleUI_def)
  from panel_mutual_exclusion [OF h, of ToggleSettings] h
  show ?thesis
    by (simp add: sampleUI_def toggleSettings_def Let_def)
qed

end
